theory Spec2Isabelle
  imports Complex_Main "HOL-Library.Log_Nat"
begin

section \<open>Payload classification (\<open>detect_data_type\<close>)\<close>

text \<open>
  Python's \<^verbatim>\<open>s.startswith(p)\<close>: the first \<open>length p\<close> characters of \<open>s\<close> are \<open>p\<close>.
  Every prefix tested by the program is ASCII, so comparing lists of bytes and comparing
  lists of code points agree.
\<close>

definition startswith :: "string \<Rightarrow> string \<Rightarrow> bool" where
  "startswith s p = (take (length p) s = p)"

text \<open>
  \<^verbatim>\<open>startswith\<close> with a tuple of prefixes: true when one of them matches.
\<close>

definition startswith_any :: "string \<Rightarrow> string list \<Rightarrow> bool" where
  "startswith_any s ps = list_ex (startswith s) ps"

text \<open>
  \<^verbatim>\<open>detect_data_type(self, data)\<close>, branch for branch. The inner test of the last branch
  is kept as the source writes it.
\<close>

definition detect_data_type :: "string \<Rightarrow> string" where
  "detect_data_type data =
     (if startswith data ''WIFI:'' then data
      else if startswith data ''TEL:'' then data
      else if startswith data ''mailto:'' then data
      else if startswith data ''http'' then data
      else (if \<not> startswith_any data [''http://'', ''https://'']
            then ''https://'' @ data
            else data))"

section \<open>Strings and paths\<close>

text \<open>
  Python's \<^verbatim>\<open>str(n)\<close> for a non-negative integer, as used by the f-string
  \<^verbatim>\<open>f"{self.parent.name_prefix} {index}"\<close>: the decimal digits, most significant first.
\<close>

definition digit_char :: "nat \<Rightarrow> char" where
  "digit_char d = char_of (48 + d)"

fun str_nat :: "nat \<Rightarrow> string" where
  "str_nat n = (if n < 10 then [digit_char n] else str_nat (n div 10) @ [digit_char (n mod 10)])"

declare str_nat.simps [simp del]

text \<open>\<^verbatim>\<open>str.lower()\<close> on the ASCII letters (the output formats are ASCII).\<close>

definition lower_char :: "char \<Rightarrow> char" where
  "lower_char c =
     (let n = (of_char c :: nat) in if 65 \<le> n \<and> n \<le> 90 then char_of (n + 32) else c)"

definition lower :: "string \<Rightarrow> string" where
  "lower s = map lower_char s"

text \<open>
  A Python \<^verbatim>\<open>str\<close> is kept as its UTF-8 encoding, a list of bytes. The bytes of a text
  file decode when they are well-formed UTF-8 (the table of well-formed byte sequences of
  the Unicode standard, which the strict decoder follows: no overlong forms, no
  surrogates, nothing above U+10FFFF).
\<close>

definition continuation :: "nat \<Rightarrow> bool" where
  "continuation b = (128 \<le> b \<and> b \<le> 191)"

fun well_formed :: "nat list \<Rightarrow> bool" where
  "well_formed [] = True"
| "well_formed (b # bs) =
     (if b < 128 then well_formed bs
      else if 194 \<le> b \<and> b \<le> 223
      then (case bs of
              c1 # r \<Rightarrow> continuation c1 \<and> well_formed r
            | _ \<Rightarrow> False)
      else if 224 \<le> b \<and> b \<le> 239
      then (case bs of
              c1 # c2 # r \<Rightarrow>
                (if b = 224 then 160 \<le> c1 \<and> c1 \<le> 191
                 else if b = 237 then 128 \<le> c1 \<and> c1 \<le> 159
                 else continuation c1)
                \<and> continuation c2 \<and> well_formed r
            | _ \<Rightarrow> False)
      else if 240 \<le> b \<and> b \<le> 244
      then (case bs of
              c1 # c2 # c3 # r \<Rightarrow>
                (if b = 240 then 144 \<le> c1 \<and> c1 \<le> 191
                 else if b = 244 then 128 \<le> c1 \<and> c1 \<le> 143
                 else continuation c1)
                \<and> continuation c2 \<and> continuation c3 \<and> well_formed r
            | _ \<Rightarrow> False)
      else False)"

definition valid_utf8 :: "string \<Rightarrow> bool" where
  "valid_utf8 s = well_formed (map of_char s)"

text \<open>
  \<^verbatim>\<open>str.strip()\<close>: leading and trailing whitespace removed. The whitespace characters are
  those of \<^verbatim>\<open>str.isspace\<close>: the ASCII ones (tab, line feed, vertical tab, form feed,
  carriage return, the separators 28 to 31, the space) and U+0085, U+00A0, U+1680,
  U+2000 to U+200A, U+2028, U+2029, U+202F, U+205F and U+3000, here by their encodings.
  In well-formed UTF-8 a prefix or a suffix that is the encoding of a character is that
  character, so stripping encodings strips characters.
\<close>

definition space_codes :: "string list" where
  "space_codes =
    [[CHR 0x09], [CHR 0x0A], [CHR 0x0B], [CHR 0x0C], [CHR 0x0D], [CHR 0x1C], [CHR 0x1D],
     [CHR 0x1E], [CHR 0x1F], [CHR 0x20], [CHR 0xC2, CHR 0x85], [CHR 0xC2, CHR 0xA0],
     [CHR 0xE1, CHR 0x9A, CHR 0x80], [CHR 0xE2, CHR 0x80, CHR 0x80],
     [CHR 0xE2, CHR 0x80, CHR 0x81], [CHR 0xE2, CHR 0x80, CHR 0x82],
     [CHR 0xE2, CHR 0x80, CHR 0x83], [CHR 0xE2, CHR 0x80, CHR 0x84],
     [CHR 0xE2, CHR 0x80, CHR 0x85], [CHR 0xE2, CHR 0x80, CHR 0x86],
     [CHR 0xE2, CHR 0x80, CHR 0x87], [CHR 0xE2, CHR 0x80, CHR 0x88],
     [CHR 0xE2, CHR 0x80, CHR 0x89], [CHR 0xE2, CHR 0x80, CHR 0x8A],
     [CHR 0xE2, CHR 0x80, CHR 0xA8], [CHR 0xE2, CHR 0x80, CHR 0xA9],
     [CHR 0xE2, CHR 0x80, CHR 0xAF], [CHR 0xE2, CHR 0x81, CHR 0x9F],
     [CHR 0xE3, CHR 0x80, CHR 0x80]]"

function strip_codes :: "string list \<Rightarrow> string \<Rightarrow> string" where
  "strip_codes codes s =
     (case find (\<lambda>code. code \<noteq> [] \<and> startswith s code) codes of
        None \<Rightarrow> s
      | Some code \<Rightarrow> strip_codes codes (drop (length code) s))"
  by pat_completeness auto
termination
proof (relation "measure (\<lambda>(codes, s). length s)")
  show "wf (measure (\<lambda>(codes, s). length s))" by simp
next
  fix codes :: "string list" and s code :: string
  assume "find (\<lambda>code. code \<noteq> [] \<and> startswith s code) codes = Some code"
  then have code: "code \<noteq> []" "take (length code) s = code"
    by (auto simp: find_Some_iff startswith_def)
  from code(2) have "length (take (length code) s) = length code"
    by simp
  then have "length code \<le> length s"
    by simp
  with code(1) have "length s - length code < length s"
    by (cases code) auto
  then show "((codes, drop (length code) s), (codes, s)) \<in> measure (\<lambda>(codes, s). length s)"
    by simp
qed

declare strip_codes.simps [simp del]

definition strip :: "string \<Rightarrow> string" where
  "strip s = rev (strip_codes (map rev space_codes) (rev (strip_codes space_codes s)))"

text \<open>
  The line feed. A file opened in text mode translates the line ends: a carriage return
  followed by a line feed, and a carriage return alone, are read as one line feed.
  \<^verbatim>\<open>f.readlines()\<close> cuts the translated text after every line feed.
\<close>

definition nl :: string where
  "nl = [CHR 0x0A]"

fun universal_newlines :: "string \<Rightarrow> string" where
  "universal_newlines [] = []"
| "universal_newlines (c # cs) =
     (if c = CHR 0x0D
      then (case cs of
              d # r \<Rightarrow>
                (if d = CHR 0x0A then CHR 0x0A # universal_newlines r
                 else CHR 0x0A # universal_newlines cs)
            | [] \<Rightarrow> [CHR 0x0A])
      else c # universal_newlines cs)"

fun readlines_from :: "string \<Rightarrow> string \<Rightarrow> string list" where
  "readlines_from cur [] = (if cur = [] then [] else [cur])"
| "readlines_from cur (c # cs) =
     (if c = CHR 0x0A then (cur @ [c]) # readlines_from [] cs else readlines_from (cur @ [c]) cs)"

definition readlines :: "string \<Rightarrow> string list" where
  "readlines s = readlines_from [] (universal_newlines s)"

text \<open>\<^verbatim>\<open>os.path.join(a, b)\<close> of \<^verbatim>\<open>posixpath\<close>, for two components.\<close>

definition path_join :: "string \<Rightarrow> string \<Rightarrow> string" where
  "path_join a b =
     (if startswith b ''/'' then b
      else if a = [] \<or> last a = CHR ''/'' then a @ b
      else a @ ''/'' @ b)"

section \<open>Binary64 arithmetic\<close>

text \<open>
  Python's \<^verbatim>\<open>float\<close> is the IEEE 754 binary64 format and every operation rounds the
  exact result to the nearest representable number, ties to the even significand. A
  finite float is a rational number, so the operations are modelled on \<^typ>\<open>rat\<close>:
  the exact result, then \<open>fl\<close>. The largest magnitude that occurs below is 255 + 255, so
  the overflow to infinity above \<open>2 ^ 1024\<close> is not part of the model.

  \<open>ilog2 x\<close> is the exponent \<open>e\<close> with \<open>2 ^ e \<le> x < 2 ^ (e + 1)\<close> for \<open>x > 0\<close>.
\<close>

definition ilog2 :: "rat \<Rightarrow> int" where
  "ilog2 x = (if 1 \<le> x then int (floorlog 2 (nat \<lfloor>x\<rfloor>)) - 1
              else - int (floorlog 2 (nat (\<lceil>1 / x\<rceil> - 1))))"

definition round_half_even :: "rat \<Rightarrow> int" where
  "round_half_even y =
     (let n = \<lfloor>y\<rfloor>; f = y - of_int n
      in if f < 1 / 2 then n else if 1 / 2 < f then n + 1 else if even n then n else n + 1)"

text \<open>
  The spacing of the floats around \<open>x\<close> is \<open>2 ^ quantum_exp x\<close>: 53 significant bits in
  the normal range, and the fixed spacing \<open>2 ^ - 1074\<close> of the subnormal numbers.
\<close>

definition quantum_exp :: "rat \<Rightarrow> int" where
  "quantum_exp x = max (ilog2 \<bar>x\<bar> - 52) (- 1074)"

definition fl :: "rat \<Rightarrow> rat" where
  "fl x = (if x = 0 then 0
           else let q = 2 powi quantum_exp x in of_int (round_half_even (x / q)) * q)"

text \<open>\<^verbatim>\<open>int(x)\<close> of a float: truncation towards zero.\<close>

definition py_trunc :: "rat \<Rightarrow> int" where
  "py_trunc x = (if 0 \<le> x then \<lfloor>x\<rfloor> else \<lceil>x\<rceil>)"

text \<open>
  \<^verbatim>\<open>int((index / total) * 100)\<close>: the true division of two integers is correctly rounded,
  the product with \<open>100.0\<close> is rounded again, and \<^verbatim>\<open>int\<close> truncates.
\<close>

definition progress_percent :: "nat \<Rightarrow> nat \<Rightarrow> int" where
  "progress_percent idx tot = py_trunc (fl (fl (of_nat idx / of_nat tot) * 100))"

section \<open>Gradient fill (\<open>create_gradient\<close>)\<close>

type_synonym color = "int \<times> int \<times> int"

text \<open>
  One channel of one scanline:
  \<^verbatim>\<open>int(color1[k] * (1 - ratio) + color2[k] * ratio)\<close>. The integer operands are converted
  to floats, and each of the four operations rounds.
\<close>

definition gradient_channel :: "int \<Rightarrow> int \<Rightarrow> rat \<Rightarrow> int" where
  "gradient_channel c1 c2 ratio =
     py_trunc (fl (fl (fl (of_int c1) * fl (1 - ratio)) + fl (fl (of_int c2) * ratio)))"

definition gradient_color :: "color \<Rightarrow> color \<Rightarrow> nat \<Rightarrow> nat \<Rightarrow> color" where
  "gradient_color color1 color2 extent i =
     (let ratio = fl (of_nat i / of_nat extent);
          (r1, g1, b1) = color1;
          (r2, g2, b2) = color2
      in (gradient_channel r1 r2 ratio, gradient_channel g1 g2 ratio, gradient_channel b1 b2 ratio))"

text \<open>
  \<^verbatim>\<open>create_gradient(width, height, color1, color2, direction)\<close>. The loop runs over
  \<^verbatim>\<open>range(height if direction == 'vertical' else width)\<close> and draws scanline \<open>i\<close> (row \<open>i\<close>
  when vertical, column \<open>i\<close> otherwise) across the whole image in one colour. The result
  lists these fill colours by position.
\<close>

definition gradient_extent :: "nat \<Rightarrow> nat \<Rightarrow> string \<Rightarrow> nat" where
  "gradient_extent width height direction = (if direction = ''vertical'' then height else width)"

definition create_gradient :: "nat \<Rightarrow> nat \<Rightarrow> color \<Rightarrow> color \<Rightarrow> string \<Rightarrow> color list" where
  "create_gradient width height color1 color2 direction =
     map (gradient_color color1 color2 (gradient_extent width height direction))
       [0 ..< gradient_extent width height direction]"

section \<open>Palette extraction (\<open>extract_colors_from_logo\<close>)\<close>

text \<open>
  A pixel of the resampled logo is an RGB triple. The list comprehension keeps the
  pixels that are neither near white (every channel above 240) nor near black (every
  channel below 20).
\<close>

definition near_white_or_black :: "color \<Rightarrow> bool" where
  "near_white_or_black p =
     (case p of (r, g, b) \<Rightarrow>
        (r > 240 \<and> g > 240 \<and> b > 240) \<or> (r < 20 \<and> g < 20 \<and> b < 20))"

text \<open>
  \<^verbatim>\<open>Counter(xs)\<close>: the elements with their counts, in the order of first occurrence.
\<close>

fun count_add :: "'a \<Rightarrow> ('a \<times> nat) list \<Rightarrow> ('a \<times> nat) list" where
  "count_add x [] = [(x, 1)]"
| "count_add x ((y, k) # r) = (if x = y then (y, Suc k) # r else (y, k) # count_add x r)"

definition counter :: "'a list \<Rightarrow> ('a \<times> nat) list" where
  "counter xs = foldl (\<lambda>acc x. count_add x acc) [] xs"

text \<open>
  \<^verbatim>\<open>most_common(n)\<close>: the \<open>n\<close> entries with the largest counts, largest first; entries
  with equal counts keep the order of first occurrence (the sort is stable).
\<close>

definition most_common :: "nat \<Rightarrow> ('a \<times> nat) list \<Rightarrow> ('a \<times> nat) list" where
  "most_common n cs = take n (sort_key (\<lambda>(c, k). - int k) cs)"

text \<open>\<^verbatim>\<open>sum(abs(color[i] - c[i]) for i in range(3))\<close>\<close>

definition color_distance :: "color \<Rightarrow> color \<Rightarrow> int" where
  "color_distance p q =
     (case (p, q) of ((r1, g1, b1), (r2, g2, b2)) \<Rightarrow> \<bar>r1 - r2\<bar> + \<bar>g1 - g2\<bar> + \<bar>b1 - b2\<bar>)"

text \<open>
  The selection loop over the most common colours: a colour is appended when nothing is
  selected yet or it is more than 80 away from every selected colour; the loop breaks when
  \<open>num_colors\<close> colours are selected.
\<close>

fun select_colors :: "nat \<Rightarrow> color list \<Rightarrow> color list \<Rightarrow> color list" where
  "select_colors num_colors [] selected = selected"
| "select_colors num_colors (c # cs) selected =
     (if selected = [] \<or> list_all (\<lambda>s. color_distance c s > 80) selected
      then (if length (selected @ [c]) \<ge> num_colors then selected @ [c]
            else select_colors num_colors cs (selected @ [c]))
      else select_colors num_colors cs selected)"

text \<open>\<^verbatim>\<open>tuple(max(0, c - 40) for c in selected[0])\<close>\<close>

definition darken :: "color \<Rightarrow> color" where
  "darken p = (case p of (r, g, b) \<Rightarrow> (max 0 (r - 40), max 0 (g - 40), max 0 (b - 40)))"

text \<open>
  The padding loop \<^verbatim>\<open>while len(selected) < num_colors\<close>. \<^verbatim>\<open>selected[0]\<close> raises
  \<^verbatim>\<open>IndexError\<close> on the empty list: the result \<open>None\<close>.
\<close>

function pad_colors :: "nat \<Rightarrow> color list \<Rightarrow> color list option" where
  "pad_colors num_colors selected =
     (if length selected < num_colors
      then (case selected of
              [] \<Rightarrow> None
            | first # _ \<Rightarrow> pad_colors num_colors (selected @ [darken first]))
      else Some selected)"
  by pat_completeness auto
termination
  by (relation "measure (\<lambda>(num_colors, selected). num_colors - length selected)") auto

declare pad_colors.simps [simp del]

definition default_palette :: "color list" where
  "default_palette = [(26, 35, 126), (74, 0, 224), (138, 43, 226)]"

text \<open>
  The fallback branch (\<^verbatim>\<open>COLOR_THIEF_SUPPORT\<close> false). Its input is what
  \<^verbatim>\<open>Image.open(logo_path).convert('RGB').resize((150, 150)).getdata()\<close> yields: the pixel
  list, or \<open>None\<close> when opening or decoding raises. Every exception ends in the bare
  \<^verbatim>\<open>except\<close>, which returns the default palette.
\<close>

definition selected_colors :: "color list \<Rightarrow> nat \<Rightarrow> color list" where
  "selected_colors data num_colors =
     (let pixels = filter (\<lambda>p. \<not> near_white_or_black p) data;
          color_counts = counter (if pixels = [] then data else pixels)
      in select_colors num_colors (map fst (most_common (num_colors * 5) color_counts)) [])"

definition extract_colors_fallback :: "color list option \<Rightarrow> nat \<Rightarrow> color list" where
  "extract_colors_fallback img num_colors =
     (case img of
        None \<Rightarrow> default_palette
      | Some data \<Rightarrow>
          (case pad_colors num_colors (selected_colors data num_colors) of
             None \<Rightarrow> default_palette
           | Some selected \<Rightarrow> take num_colors selected))"

text \<open>
  \<^verbatim>\<open>extract_colors_from_logo(logo_path, num_colors=3)\<close>: with the quantization library
  its palette is returned as it is (\<open>None\<close> when the library raises).
\<close>

definition extract_colors_from_logo ::
  "bool \<Rightarrow> color list option \<Rightarrow> color list option \<Rightarrow> nat \<Rightarrow> color list" where
  "extract_colors_from_logo color_thief_support thief_palette img num_colors =
     (if color_thief_support
      then (case thief_palette of None \<Rightarrow> default_palette | Some palette \<Rightarrow> palette)
      else extract_colors_fallback img num_colors)"

section \<open>Template lookup (\<open>get_template_function\<close>, \<open>get_template_name\<close>)\<close>

datatype builtin_template =
    template_modern_gradient
  | template_glassmorphism
  | template_neon_cyberpunk
  | template_minimalist
  | template_3d_card
  | template_aurora_glow
  | template_split_contrast
  | template_sunrise_spotlight

text \<open>
  A stored custom template: the dictionary with the keys \<open>id\<close>, \<open>name\<close>, \<open>description\<close>
  and \<open>code\<close>.
\<close>

record custom_template =
  t_id :: int
  t_name :: string
  t_description :: string
  t_code :: string

text \<open>
  A Python object found in a namespace after \<^verbatim>\<open>exec\<close>: a function, or any other object.
  What \<^verbatim>\<open>get_template_function\<close> returns is a bound method of the window (a built-in
  template) or the object the namespace binds to \<open>template_custom\<close>.
\<close>

datatype 'f py_object = Py_function 'f | Py_other string

datatype 'f template_value = Builtin builtin_template | From_namespace "'f py_object"

text \<open>
  \<^verbatim>\<open>exec(code, namespace)\<close> is the interpreter's: \<open>py_exec code\<close> is \<open>None\<close> when the
  evaluation raises, and the namespace it leaves otherwise.
\<close>

type_synonym 'f exec = "string \<Rightarrow> (string \<rightharpoonup> 'f py_object) option"

fun find_custom :: "'f exec \<Rightarrow> int \<Rightarrow> custom_template list \<Rightarrow> 'f template_value" where
  "find_custom py_exec selected [] = Builtin template_modern_gradient"
| "find_custom py_exec selected (t # ts) =
     (if t_id t = selected
      then (case py_exec (t_code t) of
              None \<Rightarrow> Builtin template_modern_gradient
            | Some namespace \<Rightarrow>
                (case namespace ''template_custom'' of
                   None \<Rightarrow> Builtin template_modern_gradient
                 | Some v \<Rightarrow> From_namespace v))
      else find_custom py_exec selected ts)"

definition get_template_function ::
  "'f exec \<Rightarrow> int \<Rightarrow> custom_template list \<Rightarrow> 'f template_value" where
  "get_template_function py_exec selected_template custom_templates =
     (if selected_template = 1 then Builtin template_modern_gradient
      else if selected_template = 2 then Builtin template_glassmorphism
      else if selected_template = 3 then Builtin template_neon_cyberpunk
      else if selected_template = 4 then Builtin template_minimalist
      else if selected_template = 5 then Builtin template_3d_card
      else if selected_template = 6 then Builtin template_aurora_glow
      else if selected_template = 7 then Builtin template_split_contrast
      else if selected_template = 8 then Builtin template_sunrise_spotlight
      else find_custom py_exec selected_template custom_templates)"

definition template_names :: "int \<rightharpoonup> string" where
  "template_names =
     [1 \<mapsto> ''Modern Gradient'', 2 \<mapsto> ''Glassmorphism'', 3 \<mapsto> ''Neon Cyberpunk'',
      4 \<mapsto> ''Minimalist'', 5 \<mapsto> ''3D Luxury'', 6 \<mapsto> ''Aurora Glow'',
      7 \<mapsto> ''Split Contrast'', 8 \<mapsto> ''Sunrise Spotlight'']"

fun find_custom_name :: "int \<Rightarrow> custom_template list \<Rightarrow> string" where
  "find_custom_name selected [] = ''Custom''"
| "find_custom_name selected (t # ts) =
     (if t_id t = selected then t_name t else find_custom_name selected ts)"

definition get_template_name :: "int \<Rightarrow> custom_template list \<Rightarrow> string" where
  "get_template_name selected_template custom_templates =
     (case template_names selected_template of
        Some n \<Rightarrow> n
      | None \<Rightarrow> find_custom_name selected_template custom_templates)"

section \<open>The batch worker (\<open>QRWorker.run\<close>) and \<open>start_generation\<close>\<close>

text \<open>
  An exception is its text \<^verbatim>\<open>str(e)\<close> and the one fact about its class that the handler
  of \<^verbatim>\<open>run\<close> tests: \<open>Exception msg\<close> is an instance of \<^verbatim>\<open>Exception\<close>, \<open>Base_exception msg\<close>
  is one of \<^verbatim>\<open>BaseException\<close> only (\<^verbatim>\<open>SystemExit\<close>, \<^verbatim>\<open>KeyboardInterrupt\<close>, \<^verbatim>\<open>GeneratorExit\<close>
  and what a template derives from them). A call that can raise returns \<open>Inl e\<close> for the
  exception and \<open>Inr v\<close> for its value.
\<close>

datatype exn = Exception string | Base_exception string

text \<open>
  The files the run touches, by path: a file is its bytes (\<open>Text\<close>: the input file,
  \<open>formatted_links.txt\<close>) or a saved card with its format and quality, and \<open>dirs\<close> are the
  directories. A path is its string, and the system is a POSIX one (\<^verbatim>\<open>posixpath\<close>, the
  line feed as \<^verbatim>\<open>os.linesep\<close>). Temporary files live in the temporary directory and are
  named apart: \<^verbatim>\<open>mkstemp\<close> creates a file whose name did not exist.
\<close>

datatype 'img content = Text string | Picture 'img string int

record history_record =
  h_date :: string
  h_template :: string
  h_count :: nat
  h_output_dir :: string

record 'img world =
  files :: "string \<rightharpoonup> 'img content"
  dirs :: "string set"
  temps :: "nat list"
  progress_signal :: "int list"
  finished_signal :: "(bool \<times> string) list"
  history :: "history_record list"
  warnings :: "string list"

text \<open>The fields of the window that the worker reads through \<^verbatim>\<open>self.parent\<close>.\<close>

record parent =
  output_dir :: string
  input_file :: string
  selected_template :: int
  custom_templates :: "custom_template list"
  use_custom_colors :: bool
  custom_colors :: "color option list"
  theme_colors :: "color option list"
  title_text :: string
  subtitle_text :: string
  title_font_size :: int
  subtitle_font_size :: int
  name_font_size :: int
  text_color :: string
  name_prefix :: string
  logo_file :: string
  qr_scale :: int
  output_format :: string
  output_quality :: int

record text_settings =
  ts_title :: string
  ts_subtitle :: string
  ts_title_font_size :: int
  ts_subtitle_font_size :: int
  ts_name_font_size :: int
  ts_text_color :: string

text \<open>
  The collaborators: the operating system, the encoder (\<^verbatim>\<open>segno\<close>), the imaging library
  and the interpreter. Each gives the outcome of one call of the source. Writing to the
  open text file, \<^verbatim>\<open>os.close\<close>, \<^verbatim>\<open>os.path.exists\<close>, \<^verbatim>\<open>os.unlink\<close>, the signals and the
  clock are taken not to raise. \<open>open_read_error\<close> is the failure to open a file that
  exists, \<open>encoded\<close> gives the bytes of a saved card, and \<open>decode_error\<close> the text of the
  \<^verbatim>\<open>UnicodeDecodeError\<close> for bytes that are not UTF-8.
\<close>

record ('qr, 'img, 'f) env =
  makedirs_error :: "string \<Rightarrow> exn option"
  open_read_error :: "string \<Rightarrow> exn option"
  open_write_error :: "string \<Rightarrow> exn option"
  encoded :: "'img \<Rightarrow> string \<Rightarrow> int \<Rightarrow> string"
  decode_error :: "string \<Rightarrow> string"
  py_exec :: "'f exec"
  segno_make :: "string \<Rightarrow> exn + 'qr"
  mkstemp_error :: "nat list \<Rightarrow> exn option"
  qr_save :: "'qr \<Rightarrow> int \<Rightarrow> exn + 'img"
  image_open :: "'img \<Rightarrow> exn + 'img"
  call_template ::
    "'f template_value \<Rightarrow> 'img \<Rightarrow> string \<Rightarrow> color option list \<Rightarrow> string option
       \<Rightarrow> text_settings \<Rightarrow> exn + 'img"
  image_save_error :: "'img \<Rightarrow> string \<Rightarrow> string \<Rightarrow> int \<Rightarrow> exn option"
  now :: string

text \<open>UTF-8 bytes of the signs that open the messages.\<close>

definition cross_mark :: string where
  "cross_mark = [CHR 0xE2, CHR 0x9D, CHR 0x8C]"

definition check_mark :: string where
  "check_mark = [CHR 0xE2, CHR 0x9C, CHR 0x85]"

definition folder_sign :: string where
  "folder_sign = [CHR 0xF0, CHR 0x9F, CHR 0x93, CHR 0x81]"

definition failure_message :: "string \<Rightarrow> string" where
  "failure_message msg = cross_mark @ '' Failed to generate QR codes:'' @ nl @ msg"

definition success_message :: "nat \<Rightarrow> string \<Rightarrow> string" where
  "success_message tot dir =
     check_mark @ '' Generated '' @ str_nat tot @ '' QR codes successfully!'' @ nl @ nl
       @ folder_sign @ '' Path: '' @ dir"

definition emit_progress :: "int \<Rightarrow> 'img world \<Rightarrow> 'img world" where
  "emit_progress v w = w\<lparr>progress_signal := progress_signal w @ [v]\<rparr>"

definition emit_finished :: "bool \<Rightarrow> string \<Rightarrow> 'img world \<Rightarrow> 'img world" where
  "emit_finished ok msg w = w\<lparr>finished_signal := finished_signal w @ [(ok, msg)]\<rparr>"

text \<open>\<^verbatim>\<open>os.path.exists(path)\<close>: true for a file and for a directory.\<close>

definition path_exists :: "'img world \<Rightarrow> string \<Rightarrow> bool" where
  "path_exists w path = (files w path \<noteq> None \<or> path \<in> dirs w)"

text \<open>
  \<^verbatim>\<open>open(path, 'r', encoding='utf-8')\<close> and \<^verbatim>\<open>f.readlines()\<close>. Opening a directory raises
  \<^verbatim>\<open>IsADirectoryError\<close>, opening a path that is neither a file nor a directory raises
  \<^verbatim>\<open>FileNotFoundError\<close>, and reading bytes that are not UTF-8 raises \<^verbatim>\<open>UnicodeDecodeError\<close>;
  all three are instances of \<^verbatim>\<open>Exception\<close>.
\<close>

definition no_such_file :: "string \<Rightarrow> string" where
  "no_such_file path = ''[Errno 2] No such file or directory: '' @ [CHR 0x27] @ path @ [CHR 0x27]"

definition is_a_directory :: "string \<Rightarrow> string" where
  "is_a_directory path = ''[Errno 21] Is a directory: '' @ [CHR 0x27] @ path @ [CHR 0x27]"

definition bytes_of :: "('qr, 'img, 'f) env \<Rightarrow> 'img content \<Rightarrow> string" where
  "bytes_of env c = (case c of Text s \<Rightarrow> s | Picture img fmt quality \<Rightarrow> encoded env img fmt quality)"

definition read_lines ::
  "('qr, 'img, 'f) env \<Rightarrow> 'img world \<Rightarrow> string \<Rightarrow> exn + string list" where
  "read_lines env w path =
     (case files w path of
        None \<Rightarrow>
          (if path \<in> dirs w then Inl (Exception (is_a_directory path))
           else Inl (Exception (no_such_file path)))
      | Some c \<Rightarrow>
          (case open_read_error env path of
             Some e \<Rightarrow> Inl e
           | None \<Rightarrow>
               (if valid_utf8 (bytes_of env c) then Inr (readlines (bytes_of env c))
                else Inl (Exception (decode_error env (bytes_of env c))))))"

text \<open>\<^verbatim>\<open>[line.strip() for line in f.readlines() if line.strip()]\<close>\<close>

definition links_of :: "string list \<Rightarrow> string list" where
  "links_of raw = map strip (filter (\<lambda>line. strip line \<noteq> []) raw)"

text \<open>
  \<^verbatim>\<open>out_f.write(s)\<close> on the open \<open>formatted_links.txt\<close>: the bytes of \<open>s\<close> are appended (a
  line feed is written as \<^verbatim>\<open>os.linesep\<close>, the line feed itself).
\<close>

definition write_text :: "string \<Rightarrow> string \<Rightarrow> 'img world \<Rightarrow> 'img world" where
  "write_text path s w =
     w\<lparr>files := (files w)(path \<mapsto>
          (case files w path of Some (Text old) \<Rightarrow> Text (old @ s) | _ \<Rightarrow> Text s))\<rparr>"

definition file_name_of :: "parent \<Rightarrow> nat \<Rightarrow> string" where
  "file_name_of p idx = name_prefix p @ '' '' @ str_nat idx"

definition formatted_entry :: "parent \<Rightarrow> nat \<Rightarrow> string \<Rightarrow> string" where
  "formatted_entry p idx link = file_name_of p idx @ nl @ ''`'' @ link @ ''`'' @ nl @ nl"

definition formatted_file :: "parent \<Rightarrow> string" where
  "formatted_file p = path_join (output_dir p) ''formatted_links.txt''"

definition output_file :: "parent \<Rightarrow> string \<Rightarrow> nat \<Rightarrow> string" where
  "output_file p template_name idx =
     path_join (output_dir p)
       (template_name @ ''_'' @ file_name_of p idx @ ''.'' @ lower (output_format p))"

text \<open>
  The three branches on \<^verbatim>\<open>output_format\<close>: the card is saved as PNG, JPEG or WEBP, and
  not at all for any other format.
\<close>

definition save_format :: "string \<Rightarrow> string option" where
  "save_format fmt =
     (if fmt = ''PNG'' then Some ''PNG''
      else if fmt = ''JPG'' then Some ''JPEG''
      else if fmt = ''WEBP'' then Some ''WEBP''
      else None)"

definition save_card ::
  "('qr, 'img, 'f) env \<Rightarrow> parent \<Rightarrow> 'img \<Rightarrow> string \<Rightarrow> 'img world \<Rightarrow> exn option \<times> 'img world" where
  "save_card env p final_img path w =
     (case save_format (output_format p) of
        None \<Rightarrow> (None, w)
      | Some fmt \<Rightarrow>
          (case image_save_error env final_img path fmt (output_quality p) of
             Some e \<Rightarrow> (Some e, w)
           | None \<Rightarrow>
               (None, w\<lparr>files := (files w)(path \<mapsto> Picture final_img fmt (output_quality p))\<rparr>)))"

text \<open>The body of the \<^verbatim>\<open>try\<close> inside the loop, for the temporary file \<open>temp_qr\<close>.\<close>

definition try_body ::
  "('qr, 'img, 'f) env \<Rightarrow> parent \<Rightarrow> 'f template_value \<Rightarrow> string \<Rightarrow> color option list
     \<Rightarrow> text_settings \<Rightarrow> nat \<Rightarrow> nat \<Rightarrow> 'qr \<Rightarrow> 'img world \<Rightarrow> exn option \<times> 'img world" where
  "try_body env p template_func template_name colors ts tot idx qr w =
     (case qr_save env qr (qr_scale p) of
        Inl e \<Rightarrow> (Some e, w)
      | Inr png \<Rightarrow>
          (case image_open env png of
             Inl e \<Rightarrow> (Some e, w)
           | Inr qr_img \<Rightarrow>
               (case call_template env template_func qr_img (file_name_of p idx) colors
                       (if logo_file p \<noteq> [] then Some (logo_file p) else None) ts of
                  Inl e \<Rightarrow> (Some e, w)
                | Inr final_img \<Rightarrow>
                    (case save_card env p final_img (output_file p template_name idx) w of
                       (Some e, w') \<Rightarrow> (Some e, w')
                     | (None, w') \<Rightarrow> (None, emit_progress (progress_percent idx tot) w')))))"

text \<open>\<^verbatim>\<open>tempfile.mkstemp\<close>: a name that no temporary file has.\<close>

definition fresh_temp :: "nat list \<Rightarrow> nat" where
  "fresh_temp ts = Suc (fold max ts 0)"

text \<open>\<^verbatim>\<open>if os.path.exists(temp_qr): os.unlink(temp_qr)\<close>\<close>

definition unlink_temp :: "nat \<Rightarrow> 'img world \<Rightarrow> 'img world" where
  "unlink_temp t w = (if t \<in> set (temps w) then w\<lparr>temps := removeAll t (temps w)\<rparr> else w)"

text \<open>One pass of the loop body, for the record \<open>link\<close> with the 1-based index \<open>idx\<close>.\<close>

definition record_body ::
  "('qr, 'img, 'f) env \<Rightarrow> parent \<Rightarrow> 'f template_value \<Rightarrow> string \<Rightarrow> color option list
     \<Rightarrow> text_settings \<Rightarrow> nat \<Rightarrow> nat \<Rightarrow> string \<Rightarrow> 'img world \<Rightarrow> exn option \<times> 'img world" where
  "record_body env p template_func template_name colors ts tot idx link w =
     (let w1 = write_text (formatted_file p) (formatted_entry p idx link) w;
          qr_data = detect_data_type link
      in case segno_make env qr_data of
           Inl e \<Rightarrow> (Some e, w1)
         | Inr qr \<Rightarrow>
             (case mkstemp_error env (temps w1) of
                Some e \<Rightarrow> (Some e, w1)
              | None \<Rightarrow>
                  (let temp_qr = fresh_temp (temps w1);
                       w2 = w1\<lparr>temps := temp_qr # temps w1\<rparr>;
                       (r, w3) = try_body env p template_func template_name colors ts tot idx qr w2
                   in (r, unlink_temp temp_qr w3))))"

text \<open>
  The loop \<^verbatim>\<open>for index, link in enumerate(links, start=1)\<close>. An exception leaves the
  loop; the index of the record that raised is returned with it.
\<close>

fun records_loop ::
  "('qr, 'img, 'f) env \<Rightarrow> parent \<Rightarrow> 'f template_value \<Rightarrow> string \<Rightarrow> color option list
     \<Rightarrow> text_settings \<Rightarrow> nat \<Rightarrow> nat \<Rightarrow> string list \<Rightarrow> 'img world
     \<Rightarrow> (nat \<times> exn) option \<times> 'img world" where
  "records_loop env p template_func template_name colors ts tot idx [] w = (None, w)"
| "records_loop env p template_func template_name colors ts tot idx (link # links) w =
     (case record_body env p template_func template_name colors ts tot idx link w of
        (Some e, w') \<Rightarrow> (Some (idx, e), w')
      | (None, w') \<Rightarrow> records_loop env p template_func template_name colors ts tot (Suc idx) links w')"

text \<open>How a run ended: before the loop, in the loop at a record, or after all records.\<close>

datatype outcome = Setup_failed exn | Record_failed nat exn | Completed nat

definition colors_of :: "parent \<Rightarrow> color option list" where
  "colors_of p =
     (if use_custom_colors p \<and> list_all (\<lambda>c. c \<noteq> None) (custom_colors p)
      then custom_colors p else theme_colors p)"

definition text_settings_of :: "parent \<Rightarrow> text_settings" where
  "text_settings_of p =
     \<lparr>ts_title = title_text p, ts_subtitle = subtitle_text p,
      ts_title_font_size = title_font_size p, ts_subtitle_font_size = subtitle_font_size p,
      ts_name_font_size = name_font_size p, ts_text_color = text_color p\<rparr>"

definition append_history :: "parent \<Rightarrow> ('qr, 'img, 'f) env \<Rightarrow> string \<Rightarrow> nat \<Rightarrow> 'img world \<Rightarrow> 'img world" where
  "append_history p env template_name tot w =
     w\<lparr>history := history w @
          [\<lparr>h_date = now env, h_template = template_name, h_count = tot,
            h_output_dir = output_dir p\<rparr>]\<rparr>"

text \<open>
  The handler \<^verbatim>\<open>except Exception as e\<close> of \<^verbatim>\<open>run\<close>: an instance of \<^verbatim>\<open>Exception\<close> is caught
  and the failure emitted with its text; any other exception leaves \<^verbatim>\<open>run\<close> and nothing
  is emitted.
\<close>

definition handle_exception :: "exn \<Rightarrow> 'img world \<Rightarrow> 'img world" where
  "handle_exception e w =
     (case e of
        Exception msg \<Rightarrow> emit_finished False (failure_message msg) w
      | Base_exception msg \<Rightarrow> w)"

text \<open>
  \<^verbatim>\<open>QRWorker.run\<close>: the whole method is one \<^verbatim>\<open>try\<close> with that handler. \<^verbatim>\<open>os.makedirs\<close> adds
  the output directory (a missing parent directory, which it creates too, is left out).
\<close>

definition run_outcome ::
  "('qr, 'img, 'f) env \<Rightarrow> parent \<Rightarrow> 'img world \<Rightarrow> outcome \<times> 'img world" where
  "run_outcome env p w =
     (case makedirs_error env (output_dir p) of
        Some e \<Rightarrow> (Setup_failed e, handle_exception e w)
      | None \<Rightarrow>
          (let w0 = w\<lparr>dirs := insert (output_dir p) (dirs w)\<rparr>
           in case read_lines env w0 (input_file p) of
                Inl e \<Rightarrow> (Setup_failed e, handle_exception e w0)
              | Inr raw \<Rightarrow>
                  (let links = links_of raw;
                       tot = length links;
                       w1 = emit_progress 0 w0;
                       template_func =
                         get_template_function (py_exec env) (selected_template p) (custom_templates p);
                       template_name = get_template_name (selected_template p) (custom_templates p);
                       colors = colors_of p;
                       ts = text_settings_of p
                   in case open_write_error env (formatted_file p) of
                        Some e \<Rightarrow> (Setup_failed e, handle_exception e w1)
                      | None \<Rightarrow>
                          (let w2 = w1\<lparr>files := (files w1)(formatted_file p \<mapsto> Text [])\<rparr>
                           in case records_loop env p template_func template_name colors ts tot 1 links w2 of
                                (Some (i, e), w3) \<Rightarrow>
                                  (Record_failed i e, handle_exception e w3)
                              | (None, w3) \<Rightarrow>
                                  (Completed tot,
                                   emit_finished True (success_message tot (output_dir p))
                                     (append_history p env template_name tot w3))))))"

definition run :: "('qr, 'img, 'f) env \<Rightarrow> parent \<Rightarrow> 'img world \<Rightarrow> 'img world" where
  "run env p w = snd (run_outcome env p w)"

text \<open>
  \<^verbatim>\<open>start_generation\<close>: the two guards, each with its warning box, then the worker.
\<close>

definition start_generation :: "('qr, 'img, 'f) env \<Rightarrow> parent \<Rightarrow> 'img world \<Rightarrow> 'img world" where
  "start_generation env p w =
     (if input_file p = [] then w\<lparr>warnings := warnings w @ [''Please select input file'']\<rparr>
      else if \<not> path_exists w (input_file p)
      then w\<lparr>warnings := warnings w @ [''Input file does not exist'']\<rparr>
      else run env p w)"

section \<open>Definitions used by the statements\<close>

text \<open>The exact value that a channel approximates, and the float before truncation.\<close>

definition exact_channel :: "int \<Rightarrow> int \<Rightarrow> nat \<Rightarrow> nat \<Rightarrow> rat" where
  "exact_channel a b i n =
     of_int a * (1 - of_nat i / of_nat n) + of_int b * (of_nat i / of_nat n)"

definition float_channel :: "int \<Rightarrow> int \<Rightarrow> nat \<Rightarrow> nat \<Rightarrow> rat" where
  "float_channel a b i n =
     fl (fl (fl (of_int a) * fl (1 - fl (of_nat i / of_nat n)))
          + fl (fl (of_int b) * fl (of_nat i / of_nat n)))"


text \<open>The three channels of a colour, by index.\<close>

definition channels :: "color \<Rightarrow> int list" where
  "channels c = (case c of (r, g, b) \<Rightarrow> [r, g, b])"


fun far_apart :: "color list \<Rightarrow> bool" where
  "far_apart [] = True"
| "far_apart (x # xs) = (list_all (\<lambda>y. color_distance x y > 80) xs \<and> far_apart xs)"


fun formatted_contents :: "parent \<Rightarrow> nat \<Rightarrow> string list \<Rightarrow> string" where
  "formatted_contents p idx [] = []"
| "formatted_contents p idx (link # links) =
     formatted_entry p idx link @ formatted_contents p (Suc idx) links"


text \<open>The world in which the loop starts, and the loop of a run.\<close>

definition loop_start :: "parent \<Rightarrow> 'img world \<Rightarrow> 'img world" where
  "loop_start p w =
     (emit_progress 0 (w\<lparr>dirs := insert (output_dir p) (dirs w)\<rparr>))
       \<lparr>files := (files w)(formatted_file p \<mapsto> Text [])\<rparr>"


definition run_loop ::
  "('qr, 'img, 'f) env \<Rightarrow> parent \<Rightarrow> string list \<Rightarrow> 'img world
     \<Rightarrow> (nat \<times> exn) option \<times> 'img world" where
  "run_loop env p links w =
     records_loop env p
       (get_template_function (py_exec env) (selected_template p) (custom_templates p))
       (get_template_name (selected_template p) (custom_templates p))
       (colors_of p) (text_settings_of p) (length links) 1 links (loop_start p w)"


subsection \<open>A job of three records\<close>

definition example_parent :: parent where
  "example_parent =
     \<lparr>output_dir = ''qr_results'', input_file = ''links.txt'', selected_template = 1,
      custom_templates = [], use_custom_colors = False, custom_colors = [None, None, None],
      theme_colors = [Some (26, 35, 126), Some (74, 0, 224), Some (138, 43, 226)],
      title_text = ''VPN Configuration'', subtitle_text = ''Scan to Connect'',
      title_font_size = 32, subtitle_font_size = 18, name_font_size = 24,
      text_color = ''#FFFFFF'', name_prefix = ''VPN'', logo_file = [], qr_scale = 15,
      output_format = ''PNG'', output_quality = 98\<rparr>"

definition example_world :: "string \<Rightarrow> string world" where
  "example_world input =
     \<lparr>files = [''links.txt'' \<mapsto> Text input], dirs = {}, temps = [], progress_signal = [],
      finished_signal = [], history = [], warnings = []\<rparr>"

text \<open>
  Collaborators that succeed, but for the template, which raises \<^verbatim>\<open>ValueError\<close> for the
  labels in \<open>bad\<close>.
\<close>

definition example_env :: "string list \<Rightarrow> (string, string, unit) env" where
  "example_env bad =
     \<lparr>makedirs_error = (\<lambda>_. None), open_read_error = (\<lambda>_. None),
      open_write_error = (\<lambda>_. None), encoded = (\<lambda>img fmt quality. CHR 0x89 # fmt @ img),
      decode_error = (\<lambda>_. ''invalid start byte''), py_exec = (\<lambda>_. None),
      segno_make = (\<lambda>data. Inr data), mkstemp_error = (\<lambda>_. None),
      qr_save = (\<lambda>qr scale. Inr qr), image_open = (\<lambda>png. Inr png),
      call_template = (\<lambda>tf qr_img label colors logo ts.
         if label \<in> set bad then Inl (Exception ''render failed'')
         else Inr (''card of '' @ qr_img)),
      image_save_error = (\<lambda>_ _ _ _. None), now = ''2024-05-01 12:00:00''\<rparr>"


definition example_input :: string where
  "example_input =
     ''https://a.example'' @ nl @ ''example.com'' @ nl @ ''WIFI:T:WPA;S:net;P:pw;;'' @ nl"

text \<open>
  The same three records in a file with the line ends of three systems, blank lines, and
  spaces, a no-break space (U+00A0) and an ideographic space (U+3000) around the
  payloads.
\<close>

definition example_input_spaced :: string where
  "example_input_spaced =
     ''  https://a.example '' @ [CHR 0x0D, CHR 0x0A]
     @ [CHR 0x0D]
     @ [CHR 0xC2, CHR 0xA0] @ nl
     @ ''example.com'' @ [CHR 0x0D]
     @ [CHR 0xE3, CHR 0x80, CHR 0x80] @ ''WIFI:T:WPA;S:net;P:pw;;'' @ [CHR 0xC2, CHR 0xA0] @ nl
     @ nl"

text \<open>
  A file without records: a line of spaces, a line with a no-break space, a line with a
  tabulator, an empty line and an ideographic space.
\<close>

definition example_input_blank :: string where
  "example_input_blank =
     ''   '' @ nl @ [CHR 0xC2, CHR 0xA0] @ [CHR 0x0D, CHR 0x0A] @ [CHR 0x09] @ nl @ nl
     @ [CHR 0xE3, CHR 0x80, CHR 0x80]"

text \<open>A world in which the input path is a directory.\<close>

definition example_dir_world :: "string world" where
  "example_dir_world = (example_world [])\<lparr>files := Map.empty, dirs := {''links.txt''}\<rparr>"




text \<open>An input file of 100 records.\<close>

definition example_input_100 :: string where
  "example_input_100 = concat (replicate 100 (''example.com'' @ nl))"

subsection \<open>Stored custom templates\<close>

text \<open>
  Four stored templates and what the interpreter makes of their sources: an assignment of
  an integer to \<open>template_custom\<close>, a function of another name, a source that raises,
  and a function named \<open>template_custom\<close>. A function object is named by its name.
\<close>

definition example_templates :: "custom_template list" where
  "example_templates =
     [\<lparr>t_id = 9, t_name = ''Constant'', t_description = ''not a function'',
       t_code = ''template_custom = 42''\<rparr>,
      \<lparr>t_id = 10, t_name = ''Renamed'', t_description = ''another name'',
       t_code = ''def render(): pass''\<rparr>,
      \<lparr>t_id = 11, t_name = ''Broken'', t_description = ''raises'',
       t_code = ''raise ValueError''\<rparr>,
      \<lparr>t_id = 12, t_name = ''Plain'', t_description = ''returns the code bitmap'',
       t_code = ''def template_custom(a, b, c, d, e): return a''\<rparr>]"

definition example_exec :: "string exec" where
  "example_exec code =
     (if code = ''template_custom = 42''
      then Some [''__builtins__'' \<mapsto> Py_other ''builtins'', ''template_custom'' \<mapsto> Py_other ''42'']
      else if code = ''def render(): pass''
      then Some [''__builtins__'' \<mapsto> Py_other ''builtins'', ''render'' \<mapsto> Py_function ''render'']
      else if code = ''def template_custom(a, b, c, d, e): return a''
      then Some [''__builtins__'' \<mapsto> Py_other ''builtins'',
                 ''template_custom'' \<mapsto> Py_function ''template_custom'']
      else None)"
section \<open>Properties of the payload classification\<close>

lemma startswith_longer:
  "startswith s (p @ q) \<Longrightarrow> startswith s p"
  unfolding startswith_def
  by (metis append_eq_conv_conj append_take_drop_id take_take)

text \<open>
  Claim C2. A payload that starts with \<open>WIFI:\<close>, \<open>TEL:\<close>, \<open>mailto:\<close> or \<open>http\<close> is
  returned unchanged; every other payload is returned with \<open>https://\<close> in front.
\<close>

theorem detect_data_type_spec:
  "(startswith d ''WIFI:'' \<or> startswith d ''TEL:'' \<or> startswith d ''mailto:''
      \<or> startswith d ''http'' \<longrightarrow> detect_data_type d = d)
   \<and> (\<not> (startswith d ''WIFI:'' \<or> startswith d ''TEL:'' \<or> startswith d ''mailto:''
      \<or> startswith d ''http'') \<longrightarrow> detect_data_type d = ''https://'' @ d)"
proof -
  have a: "startswith d ''http://'' \<Longrightarrow> startswith d ''http''"
    using startswith_longer [of d "''http''" "''://''"] by simp
  have b: "startswith d ''https://'' \<Longrightarrow> startswith d ''http''"
    using startswith_longer [of d "''http''" "''s://''"] by simp
  show ?thesis
    using a b by (auto simp: detect_data_type_def startswith_any_def)
qed

theorem detect_data_type_spec_witness:
  "detect_data_type ''example.com'' = ''https://example.com''
   \<and> detect_data_type ''WIFI:T:WPA;S:net;P:pw;;'' = ''WIFI:T:WPA;S:net;P:pw;;''
   \<and> detect_data_type ''https://a.example'' = ''https://a.example''"
  using detect_data_type_spec [of "''example.com''"]
    detect_data_type_spec [of "''WIFI:T:WPA;S:net;P:pw;;''"]
    detect_data_type_spec [of "''https://a.example''"]
  by (simp add: startswith_def)

lemma ilog2_ge1:
  assumes "1 \<le> x"
  shows "2 powi (ilog2 x) \<le> x \<and> x < 2 powi (ilog2 x + 1)"
proof -
  define n where "n = nat \<lfloor>x\<rfloor>"
  define k where "k = floorlog 2 n"
  have n: "0 < n" using assms by (simp add: n_def)
  have b: "2 ^ (k - 1) \<le> n \<and> n < 2 ^ k"
    unfolding k_def using floorlog_bounds [of n 2] n by simp
  have k: "0 < k" using b n by (cases k) auto
  have il: "ilog2 x = int k - 1" using assms by (simp add: ilog2_def n_def k_def)
  have il': "ilog2 x = int (k - 1)" using il k by simp
  have "(2::rat) powi (ilog2 x) = 2 ^ (k - 1)" unfolding il' by (rule power_int_of_nat)
  also have "\<dots> = of_nat (2 ^ (k - 1))" by simp
  also have "\<dots> \<le> of_nat n" using b by (simp only: of_nat_le_iff)
  also have "\<dots> = of_int \<lfloor>x\<rfloor>" using assms by (simp add: n_def)
  also have "\<dots> \<le> x" by simp
  finally have lo: "2 powi (ilog2 x) \<le> x" .
  have "Suc n \<le> 2 ^ k" using b by simp
  then have "(of_nat (Suc n) :: rat) \<le> of_nat (2 ^ k)" by (simp only: of_nat_le_iff)
  then have "of_int \<lfloor>x\<rfloor> + 1 \<le> (2::rat) ^ k" using assms by (simp add: n_def)
  moreover have "x < of_int \<lfloor>x\<rfloor> + 1" by linarith
  ultimately have "x < (2::rat) ^ k" by linarith
  moreover have "(2::rat) powi (ilog2 x + 1) = 2 ^ k" unfolding il using power_int_of_nat [of "2::rat" k] by simp
  ultimately show ?thesis using lo by simp
qed


lemma ilog2_lt1:
  assumes "0 < x" "x < 1"
  shows "2 powi (ilog2 x) \<le> x \<and> x < 2 powi (ilog2 x + 1)"
proof -
  define y where "y = 1 / x"
  define c where "c = nat (\<lceil>y\<rceil> - 1)"
  define k where "k = floorlog 2 c"
  have y: "1 < y" using assms by (simp add: y_def)
  then have cy: "2 \<le> \<lceil>y\<rceil>" by linarith
  then have c: "0 < c" by (simp add: c_def)
  have cint: "int c = \<lceil>y\<rceil> - 1" using cy by (simp add: c_def)
  have b: "2 ^ (k - 1) \<le> c \<and> c < 2 ^ k"
    unfolding k_def using floorlog_bounds [of c 2] c by simp
  have k: "0 < k" using b c by (cases k) auto
  have il: "ilog2 x = - int k" using assms by (simp add: ilog2_def c_def k_def y_def)
  have "Suc c \<le> 2 ^ k" using b by simp
  then have "(of_nat (Suc c) :: rat) \<le> of_nat (2 ^ k)" by (simp only: of_nat_le_iff)
  then have "(of_int (int c) :: rat) + 1 \<le> 2 ^ k" by simp
  then have "(of_int \<lceil>y\<rceil> :: rat) \<le> 2 ^ k" unfolding cint by simp
  moreover have "y \<le> of_int \<lceil>y\<rceil>" by simp
  ultimately have yk: "y \<le> 2 ^ k" by linarith
  have "(of_nat (2 ^ (k - 1)) :: rat) \<le> of_nat c" using b by (simp only: of_nat_le_iff)
  then have "(2::rat) ^ (k - 1) \<le> of_int (int c)" by simp
  then have "(2::rat) ^ (k - 1) \<le> of_int \<lceil>y\<rceil> - 1" unfolding cint by simp
  moreover have "of_int \<lceil>y\<rceil> - 1 < y" by linarith
  ultimately have ky: "(2::rat) ^ (k - 1) < y" by linarith
  have p1: "(2::rat) powi (ilog2 x) = 1 / 2 ^ k"
    unfolding il by (simp add: power_int_minus_divide)
  have "ilog2 x + 1 = - int (k - 1)" using il k by simp
  then have p2: "(2::rat) powi (ilog2 x + 1) = 1 / 2 ^ (k - 1)"
    by (simp add: power_int_minus_divide)
  have "1 / 2 ^ k \<le> x"
    using yk assms(1) by (simp add: y_def field_simps)
  moreover have "x < 1 / 2 ^ (k - 1)"
    using ky assms(1) by (simp add: y_def field_simps)
  ultimately show ?thesis using p1 p2 by simp
qed

lemma ilog2_bounds:
  "0 < x \<Longrightarrow> 2 powi (ilog2 x) \<le> x \<and> x < 2 powi (ilog2 x + 1)"
  using ilog2_ge1 [of x] ilog2_lt1 [of x] by (cases "1 \<le> x") auto

lemma ilog2_unique:
  assumes "0 < x" "2 powi e \<le> x" "x < 2 powi (e + 1)"
  shows "ilog2 x = e"
proof -
  have b: "2 powi (ilog2 x) \<le> x \<and> x < 2 powi (ilog2 x + 1)"
    using ilog2_bounds assms(1) by blast
  have "(2::rat) powi e < 2 powi (ilog2 x + 1)" using assms b by linarith
  then have 1: "e < ilog2 x + 1"
    by (metis linorder_not_less power_int_increasing one_le_numeral)
  have "(2::rat) powi (ilog2 x) < 2 powi (e + 1)" using assms b by linarith
  then have 2: "ilog2 x < e + 1"
    by (metis linorder_not_less power_int_increasing one_le_numeral)
  show ?thesis using 1 2 by simp
qed

lemma ilog2_mono:
  assumes "0 < x" "x \<le> y"
  shows "ilog2 x \<le> ilog2 y"
proof -
  have bx: "2 powi (ilog2 x) \<le> x" using ilog2_bounds assms by blast
  have by': "y < 2 powi (ilog2 y + 1)" using ilog2_bounds [of y] assms by simp
  have "(2::rat) powi (ilog2 x) < 2 powi (ilog2 y + 1)" using bx by' assms by linarith
  then have "ilog2 x < ilog2 y + 1"
    by (metis linorder_not_less power_int_increasing one_le_numeral)
  then show ?thesis by simp
qed

lemma round_half_even_of_int [simp]: "round_half_even (of_int n) = n"
  by (simp add: round_half_even_def)

lemma round_half_even_near:
  "of_int (round_half_even y) - 1 / 2 \<le> y \<and> y \<le> of_int (round_half_even y) + 1 / 2"
  unfolding round_half_even_def Let_def
  by (auto; linarith)

lemma round_half_even_mono:
  assumes "x \<le> y"
  shows "round_half_even x \<le> round_half_even y"
proof (cases "\<lfloor>x\<rfloor> = \<lfloor>y\<rfloor>")
  case True
  then show ?thesis using assms
    unfolding round_half_even_def Let_def by auto
next
  case False
  then have "\<lfloor>x\<rfloor> + 1 \<le> \<lfloor>y\<rfloor>" using assms floor_mono [of x y] by linarith
  moreover have "round_half_even x \<le> \<lfloor>x\<rfloor> + 1"
    unfolding round_half_even_def Let_def by auto
  moreover have "\<lfloor>y\<rfloor> \<le> round_half_even y"
    unfolding round_half_even_def Let_def by auto
  ultimately show ?thesis by linarith
qed


lemma round_half_even_power2 [simp]: "round_half_even (2 ^ n) = 2 ^ n"
  using round_half_even_of_int [of "2 ^ n"] by simp

lemma round_half_even_small:
  assumes "0 \<le> y" "y < 1 / 2"
  shows "round_half_even y = 0"
proof -
  have "\<lfloor>y\<rfloor> = 0" using assms by (intro floor_unique) simp_all
  then show ?thesis using assms by (simp add: round_half_even_def)
qed

lemma quantum_pos: "0 < (2::rat) powi e"
  by (simp add: zero_less_power_int)

lemma fl_scaled:
  "x \<noteq> 0 \<Longrightarrow> fl x = of_int (round_half_even (x / 2 powi quantum_exp x)) * 2 powi quantum_exp x"
  by (simp add: fl_def Let_def)

lemma round_half_even_nonneg: "0 \<le> y \<Longrightarrow> 0 \<le> round_half_even y"
  using round_half_even_mono [of 0 y] round_half_even_of_int [of 0] by simp

lemma fl_nonneg: "0 \<le> x \<Longrightarrow> 0 \<le> fl x"
proof (cases "x = 0")
  case True
  then show ?thesis by (simp add: fl_def)
next
  case False
  assume "0 \<le> x"
  then have "0 \<le> x / 2 powi quantum_exp x" using quantum_pos [of "quantum_exp x"] by simp
  then have "0 \<le> round_half_even (x / 2 powi quantum_exp x)" by (rule round_half_even_nonneg)
  then show ?thesis using False quantum_pos [of "quantum_exp x"] by (simp add: fl_scaled)
qed

lemma quantum_exp_mono:
  "0 < x \<Longrightarrow> x \<le> y \<Longrightarrow> quantum_exp x \<le> quantum_exp y"
  using ilog2_mono [of x y] by (simp add: quantum_exp_def)

lemma powi_int_valued:
  "0 \<le> e \<Longrightarrow> (2::rat) powi e = of_int (2 ^ nat e)"
  by (simp add: power_int_def)

lemma fl_le_binade:
  assumes "0 < x"
  shows "fl x \<le> 2 powi (ilog2 x + 1)"
proof -
  define q where "q = quantum_exp x"
  define d where "d = ilog2 x + 1 - q"
  have x0: "x \<noteq> 0" using assms by simp
  have qpos: "0 < (2::rat) powi q" by (rule quantum_pos)
  have "x < 2 powi (ilog2 x + 1)" using ilog2_bounds assms by blast
  also have "ilog2 x + 1 = d + q" by (simp add: d_def)
  also have "(2::rat) powi (d + q) = 2 powi d * 2 powi q" by (simp add: power_int_add)
  finally have sc: "x / 2 powi q < 2 powi d" using qpos by (simp add: field_simps)
  have tot: "(2::rat) powi (ilog2 x + 1) = 2 powi d * 2 powi q"
    unfolding d_def by (simp flip: power_int_add)
  show ?thesis
  proof (cases "0 \<le> d")
    case True
    have "round_half_even (x / 2 powi q) \<le> round_half_even (of_int (2 ^ nat d))"
      using sc powi_int_valued [OF True] by (intro round_half_even_mono) simp
    then have "round_half_even (x / 2 powi q) \<le> 2 ^ nat d" by simp
    then have "(of_int (round_half_even (x / 2 powi q)) :: rat) \<le> of_int (2 ^ nat d)"
      by (simp only: of_int_le_iff)
    then have "(of_int (round_half_even (x / 2 powi q)) :: rat) \<le> 2 powi d"
      using powi_int_valued [OF True] by simp
    then have "of_int (round_half_even (x / 2 powi q)) * 2 powi q \<le> (2::rat) powi d * 2 powi q"
      using qpos by (simp add: mult_right_mono)
    then show ?thesis using x0 tot by (simp add: fl_scaled q_def)
  next
    case False
    then have "d \<le> - 1" by simp
    then have "(2::rat) powi d \<le> 2 powi (- 1)" by (intro power_int_increasing) simp_all
    also have "(2::rat) powi (- 1) = 1 / 2" by (simp add: power_int_minus_divide)
    finally have "(2::rat) powi d \<le> 1 / 2" .
    then have "x / 2 powi q < 1 / 2" using sc by linarith
    moreover have "0 \<le> x / 2 powi q" using assms qpos by simp
    ultimately have "round_half_even (x / 2 powi q) = 0"
      by (intro round_half_even_small)
    then have "fl x = 0" using x0 by (simp add: fl_scaled q_def)
    then show ?thesis using quantum_pos [of "ilog2 x + 1"] by simp
  qed
qed

lemma fl_ge_binade:
  assumes "0 < x" "quantum_exp x \<le> ilog2 x"
  shows "2 powi (ilog2 x) \<le> fl x"
proof -
  define q where "q = quantum_exp x"
  define d where "d = ilog2 x - q"
  have d: "0 \<le> d" using assms by (simp add: d_def q_def)
  have x0: "x \<noteq> 0" using assms by simp
  have qpos: "0 < (2::rat) powi q" by (rule quantum_pos)
  have tot: "(2::rat) powi (ilog2 x) = 2 powi d * 2 powi q"
    unfolding d_def by (simp flip: power_int_add)
  have "2 powi (ilog2 x) \<le> x" using ilog2_bounds assms by blast
  then have sc: "2 powi d \<le> x / 2 powi q" using qpos unfolding tot by (simp add: field_simps)
  have "round_half_even (of_int (2 ^ nat d)) \<le> round_half_even (x / 2 powi q)"
    using sc powi_int_valued [OF d] by (intro round_half_even_mono) simp
  then have "2 ^ nat d \<le> round_half_even (x / 2 powi q)" by simp
  then have "(of_int (2 ^ nat d) :: rat) \<le> of_int (round_half_even (x / 2 powi q))"
    by (simp only: of_int_le_iff)
  then have "2 powi d \<le> (of_int (round_half_even (x / 2 powi q)) :: rat)"
    using powi_int_valued [OF d] by simp
  then have "(2::rat) powi d * 2 powi q \<le> of_int (round_half_even (x / 2 powi q)) * 2 powi q"
    using qpos by (simp add: mult_right_mono)
  then show ?thesis using x0 tot by (simp add: fl_scaled q_def)
qed

lemma fl_mono_pos:
  assumes "0 < x" "x \<le> y"
  shows "fl x \<le> fl y"
proof -
  have y: "0 < y" using assms by simp
  have le: "quantum_exp x \<le> quantum_exp y" using assms by (rule quantum_exp_mono)
  show ?thesis
  proof (cases "quantum_exp x = quantum_exp y")
    case True
    define q where "q = (2::rat) powi quantum_exp y"
    have qpos: "0 < q" unfolding q_def by (rule quantum_pos)
    have "x / q \<le> y / q" using assms qpos by (simp add: divide_right_mono)
    then have "round_half_even (x / q) \<le> round_half_even (y / q)" by (rule round_half_even_mono)
    then have "(of_int (round_half_even (x / q)) :: rat) \<le> of_int (round_half_even (y / q))"
      by (simp only: of_int_le_iff)
    then have "of_int (round_half_even (x / q)) * q \<le> of_int (round_half_even (y / q)) * q"
      using qpos by (simp add: mult_right_mono)
    then show ?thesis using assms y True by (simp add: fl_scaled q_def)
  next
    case False
    then have lt: "quantum_exp x < quantum_exp y" using le by simp
    then have qy: "quantum_exp y = ilog2 y - 52"
      using y assms by (auto simp: quantum_exp_def max_def split: if_splits)
    have "ilog2 x - 52 \<le> quantum_exp x" using assms by (simp add: quantum_exp_def)
    then have "ilog2 x + 1 \<le> ilog2 y" using lt qy by simp
    then have "(2::rat) powi (ilog2 x + 1) \<le> 2 powi (ilog2 y)"
      by (intro power_int_increasing) simp_all
    moreover have "fl x \<le> 2 powi (ilog2 x + 1)" using assms(1) by (rule fl_le_binade)
    moreover have "2 powi (ilog2 y) \<le> fl y" using y qy by (intro fl_ge_binade) simp_all
    ultimately show ?thesis by linarith
  qed
qed

lemma fl_zero [simp]: "fl 0 = 0"
  by (simp add: fl_def)

lemma fl_mono:
  assumes "0 \<le> x" "x \<le> y"
  shows "fl x \<le> fl y"
proof (cases "x = 0")
  case True
  then show ?thesis using fl_nonneg [of y] assms by simp
next
  case False
  then show ?thesis using fl_mono_pos [of x y] assms by simp
qed


lemma fl_exact:
  assumes "x \<noteq> 0" "x / 2 powi quantum_exp x = of_int m"
  shows "fl x = x"
proof -
  have "fl x = of_int m * 2 powi quantum_exp x"
    using assms by (simp add: fl_scaled)
  also have "\<dots> = x" using quantum_pos [of "quantum_exp x"] assms(2) [symmetric] by simp
  finally show ?thesis .
qed

lemma fl_of_int:
  assumes "0 < n" "n < 2 ^ 53"
  shows "fl (of_int n) = of_int n"
proof -
  define x :: rat where "x = of_int n"
  define e where "e = ilog2 x"
  have x1: "1 \<le> x" using assms by (simp add: x_def)
  then have x0: "0 < x" by simp
  have b: "2 powi e \<le> x \<and> x < 2 powi (e + 1)" unfolding e_def using ilog2_bounds x0 by blast
  have "x < 2 ^ 53" using assms(2) unfolding x_def by (metis of_int_less_iff of_int_numeral of_int_power)
  then have "(2::rat) powi e < 2 powi 53" using b by simp
  then have e53: "e < 53" by (metis linorder_not_less power_int_increasing one_le_numeral)
  have "(2::rat) powi 0 < 2 powi (e + 1)" using b x1 by simp
  then have e0: "0 \<le> e" using linorder_not_less power_int_increasing [of "e + 1" 0 "2::rat"] by fastforce
  have q: "quantum_exp x = e - 52" using e0 x0 by (simp add: quantum_exp_def e_def)
  define k where "k = nat (52 - e)"
  have ke: "e - 52 = - int k" using e53 by (simp add: k_def)
  have "x / 2 powi quantum_exp x = x * 2 ^ k"
    unfolding q ke by (simp add: power_int_minus field_simps)
  also have "\<dots> = of_int (n * 2 ^ k)" by (simp add: x_def)
  finally have "x / 2 powi quantum_exp x = of_int (n * 2 ^ k)" .
  then have "fl x = x" using x0 fl_exact [of x "n * 2 ^ k"] by blast
  then show ?thesis by (simp add: x_def)
qed

lemma fl_of_nat: "n < 2 ^ 53 \<Longrightarrow> fl (of_nat n) = of_nat n"
proof (cases "n = 0")
  case True
  then show ?thesis by simp
next
  case False
  assume "n < 2 ^ 53"
  then have "int n < 2 ^ 53" by (metis of_nat_less_iff of_nat_numeral of_nat_power)
  then show ?thesis using fl_of_int [of "int n"] False by simp
qed

lemma fl_one [simp]: "fl 1 = 1"
  using fl_of_int [of 1] by simp

lemma fl_hundred [simp]: "fl 100 = 100"
  using fl_of_int [of 100] by simp

subsection \<open>Progress\<close>

lemma py_trunc_nonneg: "0 \<le> x \<Longrightarrow> py_trunc x = \<lfloor>x\<rfloor>"
  by (simp add: py_trunc_def)

lemma progress_product:
  assumes "i \<le> n" "0 < n"
  shows "0 \<le> fl (fl (of_nat i / of_nat n) * 100) \<and> fl (fl (of_nat i / of_nat n) * 100) \<le> 100"
proof -
  have r: "0 \<le> (of_nat i / of_nat n :: rat) \<and> (of_nat i / of_nat n :: rat) \<le> 1"
    using assms by simp
  have "fl (of_nat i / of_nat n) \<le> fl 1" using r by (intro fl_mono) simp_all
  then have le1: "fl (of_nat i / of_nat n) \<le> 1" by simp
  have ge0: "0 \<le> fl (of_nat i / of_nat n)" using r by (intro fl_nonneg) simp
  have "fl (fl (of_nat i / of_nat n) * 100) \<le> fl 100"
    using le1 ge0 by (intro fl_mono) simp_all
  moreover have "0 \<le> fl (fl (of_nat i / of_nat n) * 100)"
    using ge0 by (intro fl_nonneg) simp
  ultimately show ?thesis by simp
qed

lemma progress_percent_floor:
  assumes "i \<le> n" "0 < n"
  shows "progress_percent i n = \<lfloor>fl (fl (of_nat i / of_nat n) * 100)\<rfloor>"
  using progress_product [OF assms] by (simp add: progress_percent_def py_trunc_nonneg)

lemma progress_percent_range:
  assumes "i \<le> n" "0 < n"
  shows "0 \<le> progress_percent i n \<and> progress_percent i n \<le> 100"
proof -
  have "\<lfloor>fl (fl (of_nat i / of_nat n) * 100)\<rfloor> \<le> \<lfloor>100::rat\<rfloor>"
    using progress_product [OF assms] by (intro floor_mono) simp
  then show ?thesis
    using progress_product [OF assms] unfolding progress_percent_floor [OF assms] by simp
qed

lemma progress_percent_mono:
  assumes "i \<le> j" "j \<le> n" "0 < n"
  shows "progress_percent i n \<le> progress_percent j n"
proof -
  have in': "i \<le> n" using assms by simp
  have "(of_nat i / of_nat n :: rat) \<le> of_nat j / of_nat n"
    using assms by (simp add: divide_right_mono)
  then have "fl (of_nat i / of_nat n) \<le> fl (of_nat j / of_nat n)"
    by (intro fl_mono) simp_all
  moreover have "0 \<le> fl (of_nat i / of_nat n)" by (intro fl_nonneg) simp
  ultimately have "fl (fl (of_nat i / of_nat n) * 100) \<le> fl (fl (of_nat j / of_nat n) * 100)"
    by (intro fl_mono) simp_all
  then show ?thesis
    unfolding progress_percent_floor [OF in' assms(3)] progress_percent_floor [OF assms(2,3)]
    by (rule floor_mono)
qed

lemma progress_percent_final: "0 < n \<Longrightarrow> progress_percent n n = 100"
  by (simp add: progress_percent_def py_trunc_def)


subsection \<open>Rounding error\<close>

lemma fl_error:
  assumes "0 < x" "- 1022 \<le> ilog2 x"
  shows "\<bar>fl x - x\<bar> \<le> x / 2 ^ 53"
proof -
  define q where "q = (2::rat) powi quantum_exp x"
  define m where "m = round_half_even (x / q)"
  have qe: "quantum_exp x = ilog2 x - 52" using assms by (simp add: quantum_exp_def)
  have qpos: "0 < q" unfolding q_def by (rule quantum_pos)
  have flx: "fl x = of_int m * q" using assms by (simp add: fl_scaled q_def m_def)
  have near: "of_int m - 1 / 2 \<le> x / q \<and> x / q \<le> of_int m + 1 / 2"
    unfolding m_def by (rule round_half_even_near)
  have xq: "x = (x / q) * q" using qpos by simp
  have "fl x - x = (of_int m - x / q) * q" unfolding flx using qpos by (simp add: field_simps)
  then have "\<bar>fl x - x\<bar> = \<bar>of_int m - x / q\<bar> * q" using qpos by (simp add: abs_mult)
  also have "\<dots> \<le> (1 / 2) * q"
  proof -
    have "\<bar>of_int m - x / q\<bar> \<le> 1 / 2" using near by linarith
    then show ?thesis using qpos by (intro mult_right_mono) simp_all
  qed
  finally have e1: "\<bar>fl x - x\<bar> \<le> q / 2" by simp
  have "2 powi (ilog2 x) \<le> x" using ilog2_bounds assms(1) by blast
  moreover have "(2::rat) powi (52 + (ilog2 x - 52)) = 2 powi 52 * 2 powi (ilog2 x - 52)"
    by (rule power_int_add) simp
  moreover have "(2::rat) powi 52 = 2 ^ 52"
    using power_int_of_nat [of "2::rat" 52] by simp
  ultimately have "2 ^ 52 * q \<le> x" unfolding q_def qe by simp
  then have "q / 2 \<le> x / 2 ^ 53" by simp
  then show ?thesis using e1 by linarith
qed

lemma ilog2_ge:
  assumes "2 powi e \<le> x"
  shows "e \<le> ilog2 x"
proof -
  have x0: "0 < x" using assms quantum_pos [of e] by linarith
  have "x < 2 powi (ilog2 x + 1)" using ilog2_bounds x0 by blast
  then have "(2::rat) powi e < 2 powi (ilog2 x + 1)" using assms by linarith
  then have "e < ilog2 x + 1"
    by (metis linorder_not_less power_int_increasing one_le_numeral)
  then show ?thesis by simp
qed

lemma progress_percent_close:
  assumes "1 \<le> i" "i \<le> n" "n \<le> 2 ^ 44"
  shows "(100 * int i) div int n - 1 \<le> progress_percent i n
     \<and> progress_percent i n \<le> (100 * int i) div int n"
proof -
  define x :: rat where "x = of_nat i / of_nat n"
  define u :: rat where "u = 1 / 2 ^ 53"
  define y where "y = fl x"
  define z where "z = fl (y * 100)"
  define k where "k = (100 * int i) div int n"
  have n0: "0 < n" using assms by simp
  have nr: "(of_nat n :: rat) \<le> 2 ^ 44"
    using assms(3) by (metis of_nat_le_iff of_nat_numeral of_nat_power)
  have x0: "0 < x" using assms by (simp add: x_def)
  have x1: "x \<le> 1" using assms by (simp add: x_def)
  have xn: "1 / of_nat n \<le> x" using assms by (simp add: x_def divide_right_mono)
  have "(1::rat) / 2 ^ 44 \<le> 1 / of_nat n" using nr n0 by (simp add: field_simps)
  then have lowx: "(1::rat) / 2 ^ 44 \<le> x" using xn by linarith
  have "(2::rat) powi (- 44) = 1 / 2 ^ 44" by (simp add: power_int_minus_divide)
  then have ex: "- 44 \<le> ilog2 x" using lowx by (intro ilog2_ge) simp
  have ey: "\<bar>y - x\<bar> \<le> x / 2 ^ 53" unfolding y_def using x0 ex by (intro fl_error) simp_all
  have "x / 2 ^ 53 \<le> u" using x1 by (simp add: u_def divide_right_mono)
  then have yx: "x - u \<le> y \<and> y \<le> x + u" using ey by linarith
  have y1: "y \<le> 1" unfolding y_def using fl_mono [of x 1] x0 x1 by simp
  have "x / 2 \<le> x - u" using lowx by (simp add: u_def)
  then have yhalf: "x / 2 \<le> y" using yx by linarith
  then have y0: "0 < y" using x0 by linarith
  have "0 < (1::rat) / 2 ^ 44" by simp
  then have "(1::rat) / 2 ^ 44 \<le> y * 100" using yhalf lowx by linarith
  then have ez0: "- 44 \<le> ilog2 (y * 100)"
    using \<open>(2::rat) powi (- 44) = 1 / 2 ^ 44\<close> by (intro ilog2_ge) simp
  have ez: "\<bar>z - y * 100\<bar> \<le> (y * 100) / 2 ^ 53"
    unfolding z_def using y0 ez0 by (intro fl_error) simp_all
  have "(y * 100) / 2 ^ 53 \<le> 100 * u" using y1 by (simp add: u_def)
  then have zy: "y * 100 - 100 * u \<le> z \<and> z \<le> y * 100 + 100 * u"
    using ez by linarith
  have zx: "100 * x - 200 * u \<le> z \<and> z \<le> 100 * x + 200 * u" using zy yx by linarith
  have z0: "0 \<le> z" unfolding z_def using y0 by (intro fl_nonneg) simp
  have pp: "progress_percent i n = \<lfloor>z\<rfloor>"
    using z0 by (simp add: progress_percent_def py_trunc_def z_def y_def x_def)
  have kx: "k = \<lfloor>100 * x\<rfloor>"
    unfolding k_def x_def using floor_divide_of_int_eq [of "100 * int i" "int n", where ?'a = rat]
    by simp
  have small: "200 * u < 1 / of_nat n"
  proof -
    have "200 * u < 1 / 2 ^ 44" by (simp add: u_def)
    also have "\<dots> \<le> 1 / of_nat n" using nr n0 by (simp add: field_simps)
    finally show ?thesis .
  qed
  have "100 * int i = k * int n + (100 * int i) mod int n"
    unfolding k_def by simp
  moreover have "(100 * int i) mod int n < int n" using n0 by simp
  ultimately have "100 * int i < (k + 1) * int n" by (simp add: algebra_simps)
  then have "100 * int i + 1 \<le> (k + 1) * int n" by simp
  then have "(of_int (100 * int i + 1) :: rat) \<le> of_int ((k + 1) * int n)"
    by (simp only: of_int_le_iff)
  then have "100 * of_nat i + 1 \<le> (of_int k + 1) * (of_nat n :: rat)" by simp
  then have "(100 * of_nat i + 1) / of_nat n \<le> (of_int k + 1 :: rat)"
    using n0 by (simp add: field_simps)
  then have up: "100 * x + 1 / of_nat n \<le> of_int k + 1"
    using n0 by (simp add: x_def add_divide_distrib)
  have "z < of_int k + 1" using zx small up by linarith
  then have "z < of_int (k + 1)" by simp
  then have "\<lfloor>z\<rfloor> < k + 1" by (simp only: floor_less_iff)
  then have hi: "\<lfloor>z\<rfloor> \<le> k" by simp
  have "of_int k \<le> 100 * x" unfolding kx by simp
  moreover have "200 * u < 1" by (simp add: u_def)
  ultimately have "of_int (k - 1) \<le> z" using zx by simp
  then have lo: "k - 1 \<le> \<lfloor>z\<rfloor>" by (simp only: le_floor_iff)
  show ?thesis using hi lo unfolding pp k_def by simp
qed
section \<open>Properties of the palette extraction\<close>

lemma color_distance_sym: "color_distance p q = color_distance q p"
  by (cases p; cases q) (simp add: color_distance_def abs_minus_commute)

lemma far_apart_snoc:
  "far_apart (xs @ [c]) = (far_apart xs \<and> list_all (\<lambda>s. color_distance c s > 80) xs)"
  by (induction xs) (auto simp: color_distance_sym)

lemma select_colors_far_apart:
  "far_apart selected \<Longrightarrow> far_apart (select_colors k cs selected)"
proof (induction cs arbitrary: selected)
  case Nil
  then show ?case by simp
next
  case (Cons c cs)
  show ?case
  proof (cases "selected = [] \<or> list_all (\<lambda>s. color_distance c s > 80) selected")
    case True
    then have far: "far_apart (selected @ [c])"
      using Cons.prems by (auto simp: far_apart_snoc)
    show ?thesis
      using True far Cons.IH [OF far] by simp
  next
    case False
    then show ?thesis using Cons by simp
  qed
qed

lemma select_colors_nonempty:
  "selected \<noteq> [] \<or> cs \<noteq> [] \<Longrightarrow> select_colors k cs selected \<noteq> []"
  by (induction cs arbitrary: selected) auto

lemma count_add_nonempty: "count_add x acc \<noteq> []"
  by (induction x acc rule: count_add.induct) auto

lemma foldl_count_add_nonempty:
  "acc \<noteq> [] \<or> xs \<noteq> [] \<Longrightarrow> foldl (\<lambda>acc x. count_add x acc) acc xs \<noteq> []"
  by (induction xs arbitrary: acc) (auto simp: count_add_nonempty)

lemma counter_nonempty: "xs \<noteq> [] \<Longrightarrow> counter xs \<noteq> []"
  by (simp add: counter_def foldl_count_add_nonempty)

lemma most_common_nonempty: "cs \<noteq> [] \<Longrightarrow> 0 < n \<Longrightarrow> most_common n cs \<noteq> []"
proof -
  assume a: "cs \<noteq> []" "0 < n"
  have "length (sort_key (\<lambda>(c, k). - int k) cs) = length cs" by simp
  then have "sort_key (\<lambda>(c, k). - int k) cs \<noteq> []" using a by (metis length_0_conv)
  then show ?thesis using a by (simp add: most_common_def)
qed

lemma selected_colors_nonempty:
  assumes "data \<noteq> []" "0 < k"
  shows "selected_colors data k \<noteq> []"
proof -
  let ?pixels = "filter (\<lambda>p. \<not> near_white_or_black p) data"
  let ?src = "if ?pixels = [] then data else ?pixels"
  have "?src \<noteq> []" using assms by simp
  then have "counter ?src \<noteq> []" by (rule counter_nonempty)
  then have "most_common (k * 5) (counter ?src) \<noteq> []"
    using assms by (intro most_common_nonempty) simp_all
  then have "map fst (most_common (k * 5) (counter ?src)) \<noteq> []" by simp
  then show ?thesis
    unfolding selected_colors_def Let_def by (intro select_colors_nonempty) simp
qed

lemma selected_colors_far_apart: "far_apart (selected_colors data k)"
  unfolding selected_colors_def Let_def by (intro select_colors_far_apart) simp

lemma pad_colors_nonempty:
  "pad_colors k (s # ss) = Some ((s # ss) @ replicate (k - length (s # ss)) (darken s))"
proof (induction "k - length (s # ss)" arbitrary: ss)
  case 0
  then show ?case by (simp add: pad_colors.simps)
next
  case (Suc n)
  then have lt: "length (s # ss) < k" by simp
  have n: "n = k - length (s # (ss @ [darken s]))" using Suc.hyps(2) by simp
  have "pad_colors k (s # ss) = pad_colors k (s # (ss @ [darken s]))"
    using lt by (subst pad_colors.simps) simp
  also have "\<dots> = Some ((s # (ss @ [darken s])) @ replicate n (darken s))"
    using Suc.hyps(1) [OF n] n by simp
  also have "(s # (ss @ [darken s])) @ replicate n (darken s)
      = (s # ss) @ replicate (Suc n) (darken s)" by simp
  finally show ?case using Suc.hyps(2) by simp
qed

lemma pad_colors_empty: "pad_colors k [] = (if 0 < k then None else Some [])"
  by (simp add: pad_colors.simps)

lemma extract_colors_fallback_selected:
  assumes "selected_colors data k \<noteq> []"
  shows "extract_colors_fallback (Some data) k =
     take k (selected_colors data k
        @ replicate (k - length (selected_colors data k)) (darken (hd (selected_colors data k))))"
proof -
  obtain s ss where sel: "selected_colors data k = s # ss"
    using assms by (cases "selected_colors data k") auto
  have "extract_colors_fallback (Some data) k =
      (case pad_colors k (s # ss) of None \<Rightarrow> default_palette | Some selected \<Rightarrow> take k selected)"
    by (simp add: extract_colors_fallback_def sel)
  also have "\<dots> = take k ((s # ss) @ replicate (k - length (s # ss)) (darken s))"
    by (simp only: pad_colors_nonempty option.case)
  finally show ?thesis by (simp add: sel)
qed

lemma length_extract_colors_fallback: "length (extract_colors_fallback img 3) = 3"
proof (cases img)
  case None
  then show ?thesis by (simp add: extract_colors_fallback_def default_palette_def)
next
  case (Some data)
  show ?thesis
  proof (cases "selected_colors data 3 = []")
    case True
    then show ?thesis
      using Some by (simp add: extract_colors_fallback_def pad_colors_empty default_palette_def)
  next
    case False
    then show ?thesis
      unfolding Some extract_colors_fallback_selected [OF False] by simp
  qed
qed

lemma foldl_count_add_replicate:
  "foldl (\<lambda>acc x. count_add x acc) [(c, k)] (replicate n c) = [(c, k + n)]"
  by (induction n arbitrary: k) simp_all

lemma counter_replicate: "0 < n \<Longrightarrow> counter (replicate n c) = [(c, n)]"
proof -
  assume "0 < n"
  then obtain m where n: "n = Suc m" by (cases n) auto
  show ?thesis
    unfolding n counter_def using foldl_count_add_replicate [of c 1 m] by simp
qed

lemma selected_colors_uniform:
  assumes "0 < n"
  shows "selected_colors (replicate n c) 3 = [c]"
proof -
  have src: "(if filter (\<lambda>p. \<not> near_white_or_black p) (replicate n c) = []
      then replicate n c else filter (\<lambda>p. \<not> near_white_or_black p) (replicate n c))
      = replicate n c"
    by (cases "near_white_or_black c") simp_all
  show ?thesis
    unfolding selected_colors_def Let_def src counter_replicate [OF assms]
    by (simp add: most_common_def)
qed

lemma extract_colors_fallback_uniform:
  assumes "0 < n"
  shows "extract_colors_fallback (Some (replicate n c)) 3 = [c, darken c, darken c]"
proof -
  have ne: "selected_colors (replicate n c) 3 \<noteq> []"
    using selected_colors_uniform [OF assms] by simp
  show ?thesis
    unfolding extract_colors_fallback_selected [OF ne] selected_colors_uniform [OF assms]
    by (simp add: numeral_3_eq_3)
qed

text \<open>
  Claim C6, as the code has it. Every palette of the fallback path has exactly three
  entries. The colours that the selection loop takes from the image are pairwise more than
  80 apart. When the image gives fewer than three, the palette is filled up with copies of
  the first selected colour darkened by 40 in each channel (not below 0); the copies are
  not compared with anything.
\<close>

theorem fallback_palette_three_entries:
  "length (extract_colors_fallback img 3) = 3
   \<and> far_apart (selected_colors data 3)
   \<and> (data \<noteq> [] \<longrightarrow>
        selected_colors data 3 \<noteq> []
        \<and> extract_colors_fallback (Some data) 3 =
            take 3 (selected_colors data 3
              @ replicate (3 - length (selected_colors data 3))
                  (darken (hd (selected_colors data 3)))))"
  using length_extract_colors_fallback selected_colors_far_apart
    selected_colors_nonempty [of data 3] extract_colors_fallback_selected [of data 3]
  by simp

lemma selected_colors_example:
  "selected_colors
     [(200, 30, 30), (30, 30, 200), (30, 30, 200), (255, 255, 255), (210, 40, 40)] 3
   = [(30, 30, 200), (200, 30, 30)]"
  by (simp add: selected_colors_def near_white_or_black_def counter_def most_common_def
      color_distance_def)

theorem fallback_palette_three_entries_witness:
  "length (extract_colors_fallback
      (Some [(200, 30, 30), (30, 30, 200), (30, 30, 200), (255, 255, 255), (210, 40, 40)]) 3) = 3
   \<and> far_apart [(30, 30, 200), (200, 30, 30)]
   \<and> extract_colors_fallback
        (Some [(200, 30, 30), (30, 30, 200), (30, 30, 200), (255, 255, 255), (210, 40, 40)]) 3
      = [(30, 30, 200), (200, 30, 30), (0, 0, 160)]"
  using fallback_palette_three_entries
    [of "Some [(200, 30, 30), (30, 30, 200), (30, 30, 200), (255, 255, 255), (210, 40, 40)]"
      "[(200, 30, 30), (30, 30, 200), (30, 30, 200), (255, 255, 255), (210, 40, 40)]"]
  by (simp add: selected_colors_example darken_def)

text \<open>
  Claim C6 as stated fails on a logo of one colour: the 150 by 150 pixels
  \<open>(100, 100, 100)\<close> give one selected colour and two equal padding entries, at
  distance 0 from each other.
\<close>

theorem fallback_padding_duplicates:
  "extract_colors_fallback (Some (replicate 22500 (100, 100, 100))) 3
     = [(100, 100, 100), (60, 60, 60), (60, 60, 60)]
   \<and> color_distance (60, 60, 60) (60, 60, 60) = 0
   \<and> \<not> far_apart (extract_colors_fallback (Some (replicate 22500 (100, 100, 100))) 3)"
  using extract_colors_fallback_uniform [of 22500 "(100, 100, 100)"]
  by (simp add: darken_def color_distance_def)

text \<open>
  Claim C7, as the code has it. On an all-white image every pixel is filtered out, the
  counter falls back to all pixels, and the palette is white followed by two copies of
  white darkened by 40: the call returns, and what it returns is not the default palette.
\<close>

theorem all_white_palette:
  "0 < n \<Longrightarrow>
   extract_colors_from_logo False thief_palette (Some (replicate n (255, 255, 255))) 3
     = [(255, 255, 255), (215, 215, 215), (215, 215, 215)]
   \<and> extract_colors_from_logo False thief_palette (Some (replicate n (255, 255, 255))) 3
       \<noteq> default_palette"
  using extract_colors_fallback_uniform [of n "(255, 255, 255)"]
  by (simp add: extract_colors_from_logo_def darken_def default_palette_def)

theorem all_white_palette_witness:
  "extract_colors_from_logo False None (Some (replicate 22500 (255, 255, 255))) 3
     = [(255, 255, 255), (215, 215, 215), (215, 215, 215)]
   \<and> extract_colors_from_logo False None (Some (replicate 22500 (255, 255, 255))) 3
       \<noteq> default_palette"
  using all_white_palette [of 22500 None] by (simp add: default_palette_def)

text \<open>
  Claim C7 as stated fails on the all-white image of 150 by 150 pixels: all of its pixels
  are near white, and the palette returned is not the default one.
\<close>

theorem all_white_not_default:
  "list_all near_white_or_black (replicate 22500 (255, 255, 255))
   \<and> extract_colors_from_logo False None (Some (replicate 22500 (255, 255, 255))) 3
       \<noteq> default_palette"
  using extract_colors_fallback_uniform [of 22500 "(255, 255, 255)"]
  by (simp add: extract_colors_from_logo_def darken_def default_palette_def
      near_white_or_black_def list_all_iff)
section \<open>Properties of the template lookup\<close>

lemma find_custom_find:
  "find_custom ex sel ts =
     (case find (\<lambda>t. t_id t = sel) ts of
        None \<Rightarrow> Builtin template_modern_gradient
      | Some t \<Rightarrow>
          (case ex (t_code t) of
             None \<Rightarrow> Builtin template_modern_gradient
           | Some namespace \<Rightarrow>
               (case namespace ''template_custom'' of
                  None \<Rightarrow> Builtin template_modern_gradient
                | Some v \<Rightarrow> From_namespace v)))"
  by (induction ts) simp_all

text \<open>
  Claim C8, as the code has it. For a selected id above 8 the lookup is decided by the
  first stored template with that id. The built-in \<open>template_modern_gradient\<close> is
  returned when there is none, when evaluating its source raises, and when the namespace
  does not bind the name \<open>template_custom\<close>. When the namespace binds the name, the bound
  object is returned, whether it is a function or not. The lookup is a total function of
  the stored records: no case raises.
\<close>

theorem get_template_function_custom:
  assumes "8 < sel"
  shows "(find (\<lambda>t. t_id t = sel) ts = None
            \<longrightarrow> get_template_function ex sel ts = Builtin template_modern_gradient)
       \<and> (\<forall>t. find (\<lambda>t. t_id t = sel) ts = Some t \<and> ex (t_code t) = None
            \<longrightarrow> get_template_function ex sel ts = Builtin template_modern_gradient)
       \<and> (\<forall>t ns. find (\<lambda>t. t_id t = sel) ts = Some t \<and> ex (t_code t) = Some ns
              \<and> ns ''template_custom'' = None
            \<longrightarrow> get_template_function ex sel ts = Builtin template_modern_gradient)
       \<and> (\<forall>t ns v. find (\<lambda>t. t_id t = sel) ts = Some t \<and> ex (t_code t) = Some ns
              \<and> ns ''template_custom'' = Some v
            \<longrightarrow> get_template_function ex sel ts = From_namespace v)"
  using assms by (simp add: get_template_function_def find_custom_find)

lemma example_find:
  "find (\<lambda>t. t_id t = 9) example_templates
     = Some \<lparr>t_id = 9, t_name = ''Constant'', t_description = ''not a function'',
         t_code = ''template_custom = 42''\<rparr>"
  "find (\<lambda>t. t_id t = 10) example_templates
     = Some \<lparr>t_id = 10, t_name = ''Renamed'', t_description = ''another name'',
         t_code = ''def render(): pass''\<rparr>"
  "find (\<lambda>t. t_id t = 11) example_templates
     = Some \<lparr>t_id = 11, t_name = ''Broken'', t_description = ''raises'',
         t_code = ''raise ValueError''\<rparr>"
  "find (\<lambda>t. t_id t = 12) example_templates
     = Some \<lparr>t_id = 12, t_name = ''Plain'', t_description = ''returns the code bitmap'',
         t_code = ''def template_custom(a, b, c, d, e): return a''\<rparr>"
  "find (\<lambda>t. t_id t = 13) example_templates = None"
  by (simp_all add: example_templates_def)

lemma example_exec_values:
  "example_exec ''raise ValueError'' = None"
  "example_exec ''def render(): pass''
     = Some [''__builtins__'' \<mapsto> Py_other ''builtins'', ''render'' \<mapsto> Py_function ''render'']"
  "example_exec ''def template_custom(a, b, c, d, e): return a''
     = Some [''__builtins__'' \<mapsto> Py_other ''builtins'',
             ''template_custom'' \<mapsto> Py_function ''template_custom'']"
  "example_exec ''template_custom = 42''
     = Some [''__builtins__'' \<mapsto> Py_other ''builtins'', ''template_custom'' \<mapsto> Py_other ''42'']"
  by (simp_all add: example_exec_def)

theorem get_template_function_custom_witness:
  "get_template_function example_exec 13 example_templates = Builtin template_modern_gradient
   \<and> get_template_function example_exec 11 example_templates = Builtin template_modern_gradient
   \<and> get_template_function example_exec 10 example_templates = Builtin template_modern_gradient
   \<and> get_template_function example_exec 12 example_templates
       = From_namespace (Py_function ''template_custom'')"
  using get_template_function_custom [of 13 example_templates example_exec]
    get_template_function_custom [of 11 example_templates example_exec]
    get_template_function_custom [of 10 example_templates example_exec]
    get_template_function_custom [of 12 example_templates example_exec]
  by (simp add: example_find example_exec_values)

text \<open>
  Claim C8 as stated fails on a stored template whose source is the assignment
  \<open>template_custom = 42\<close>: the namespace holds no function of that name, and the
  lookup returns the integer, not the built-in template.
\<close>

theorem non_function_binding_returned:
  "map_option (\<lambda>ns. ns ''template_custom'') (example_exec ''template_custom = 42'')
     = Some (Some (Py_other ''42''))
   \<and> get_template_function example_exec 9 example_templates = From_namespace (Py_other ''42'')
   \<and> get_template_function example_exec 9 example_templates
       \<noteq> Builtin template_modern_gradient"
  by (simp add: get_template_function_def find_custom_find example_find example_exec_values)
section \<open>Properties of the batch worker\<close>

subsection \<open>Fields left alone by the small steps\<close>

lemma emit_progress_fields [simp]:
  "files (emit_progress v w) = files w"
  "temps (emit_progress v w) = temps w"
  "history (emit_progress v w) = history w"
  "finished_signal (emit_progress v w) = finished_signal w"
  "warnings (emit_progress v w) = warnings w"
  "dirs (emit_progress v w) = dirs w"
  "progress_signal (emit_progress v w) = progress_signal w @ [v]"
  by (simp_all add: emit_progress_def)

lemma emit_finished_fields [simp]:
  "files (emit_finished ok m w) = files w"
  "temps (emit_finished ok m w) = temps w"
  "history (emit_finished ok m w) = history w"
  "progress_signal (emit_finished ok m w) = progress_signal w"
  "warnings (emit_finished ok m w) = warnings w"
  "dirs (emit_finished ok m w) = dirs w"
  "finished_signal (emit_finished ok m w) = finished_signal w @ [(ok, m)]"
  by (simp_all add: emit_finished_def)

lemma write_text_fields [simp]:
  "temps (write_text path s w) = temps w"
  "history (write_text path s w) = history w"
  "progress_signal (write_text path s w) = progress_signal w"
  "finished_signal (write_text path s w) = finished_signal w"
  "warnings (write_text path s w) = warnings w"
  "dirs (write_text path s w) = dirs w"
  by (simp_all add: write_text_def)

lemma write_text_files:
  "files (write_text path s w) =
     (files w)(path \<mapsto> (case files w path of Some (Text old) \<Rightarrow> Text (old @ s) | _ \<Rightarrow> Text s))"
  by (simp add: write_text_def)

lemma unlink_temp_fields [simp]:
  "files (unlink_temp t w) = files w"
  "history (unlink_temp t w) = history w"
  "progress_signal (unlink_temp t w) = progress_signal w"
  "finished_signal (unlink_temp t w) = finished_signal w"
  "warnings (unlink_temp t w) = warnings w"
  "dirs (unlink_temp t w) = dirs w"
  "temps (unlink_temp t w) = removeAll t (temps w)"
  by (simp_all add: unlink_temp_def)

lemma append_history_fields [simp]:
  "files (append_history p env tn tot w) = files w"
  "temps (append_history p env tn tot w) = temps w"
  "progress_signal (append_history p env tn tot w) = progress_signal w"
  "finished_signal (append_history p env tn tot w) = finished_signal w"
  "warnings (append_history p env tn tot w) = warnings w"
  "dirs (append_history p env tn tot w) = dirs w"
  "history (append_history p env tn tot w) = history w @
     [\<lparr>h_date = now env, h_template = tn, h_count = tot, h_output_dir = output_dir p\<rparr>]"
  by (simp_all add: append_history_def)

subsection \<open>Saving a card\<close>

lemma save_card_fields:
  assumes "save_card env p img path w = (r, w')"
  shows "temps w' = temps w" "history w' = history w" "progress_signal w' = progress_signal w"
    "finished_signal w' = finished_signal w" "warnings w' = warnings w" "dirs w' = dirs w"
  using assms by (auto simp: save_card_def split: option.splits)

lemma save_card_files:
  assumes "save_card env p img path w = (r, w')"
  shows "files w' = files w
     \<or> (r = None \<and> (\<exists>fmt. save_format (output_format p) = Some fmt
            \<and> files w' = (files w)(path \<mapsto> Picture img fmt (output_quality p))))"
  using assms by (auto simp: save_card_def split: option.splits)

lemma save_card_written:
  assumes "save_card env p img path w = (None, w')" "save_format (output_format p) \<noteq> None"
  shows "path \<in> dom (files w')"
  using assms by (auto simp: save_card_def split: option.splits)

subsection \<open>The body of the try\<close>

lemma try_body_fields:
  assumes "try_body env p tf tn cs ts tot idx qr w = (r, w')"
  shows "temps w' = temps w" "history w' = history w"
    "finished_signal w' = finished_signal w" "warnings w' = warnings w" "dirs w' = dirs w"
  using assms
  by (auto simp: try_body_def split: sum.splits option.splits prod.splits
      dest: save_card_fields)

lemma try_body_progress:
  assumes "try_body env p tf tn cs ts tot idx qr w = (r, w')"
  shows "progress_signal w' =
     progress_signal w @ (if r = None then [progress_percent idx tot] else [])"
  using assms
  by (auto simp: try_body_def split: sum.splits option.splits prod.splits
      dest: save_card_fields)

lemma try_body_files:
  assumes "try_body env p tf tn cs ts tot idx qr w = (r, w')"
  shows "files w' = files w
     \<or> (r = None \<and> (\<exists>img fmt. save_format (output_format p) = Some fmt
            \<and> files w' = (files w)(output_file p tn idx \<mapsto> Picture img fmt (output_quality p))))"
  using assms
  by (auto simp: try_body_def split: sum.splits option.splits prod.splits
      dest!: save_card_files)

lemma try_body_written:
  assumes "try_body env p tf tn cs ts tot idx qr w = (None, w')"
    "save_format (output_format p) \<noteq> None"
  shows "output_file p tn idx \<in> dom (files w')"
  using assms
  by (auto simp: try_body_def split: sum.splits option.splits prod.splits
      dest!: save_card_written)


subsection \<open>Temporary files\<close>

lemma le_fold_max: "x \<in> set ts \<Longrightarrow> x \<le> fold max ts (a::nat)"
proof (induction ts arbitrary: a)
  case Nil
  then show ?case by simp
next
  case (Cons t ts)
  have mono: "b \<le> fold max ts (b::nat)" for b
    by (induction ts arbitrary: b) (auto intro: order_trans [OF max.cobounded2])
  show ?case
  proof (cases "x = t")
    case True
    then show ?thesis using mono [of "max t a"] by simp
  next
    case False
    then show ?thesis using Cons by simp
  qed
qed

lemma fresh_temp_new: "fresh_temp ts \<notin> set ts"
proof
  assume "fresh_temp ts \<in> set ts"
  then have "fresh_temp ts \<le> fold max ts 0" by (rule le_fold_max)
  then show False by (simp add: fresh_temp_def)
qed

lemma removeAll_fresh [simp]: "removeAll (fresh_temp ts) ts = ts"
  using fresh_temp_new [of ts] by simp

subsection \<open>One record\<close>

lemma record_body_temps:
  "temps (snd (record_body env p tf tn cs ts tot idx link w)) = temps w"
proof -
  let ?w1 = "write_text (formatted_file p) (formatted_entry p idx link) w"
  show ?thesis
  proof (cases "segno_make env (detect_data_type link)")
    case (Inl e)
    then show ?thesis by (simp add: record_body_def)
  next
    case (Inr qr)
    show ?thesis
    proof (cases "mkstemp_error env (temps ?w1)")
      case (Some e)
      then show ?thesis using Inr by (simp add: record_body_def)
    next
      case None
      let ?t = "fresh_temp (temps w)"
      let ?w2 = "?w1\<lparr>temps := ?t # temps ?w1\<rparr>"
      obtain r w3 where tb: "try_body env p tf tn cs ts tot idx qr ?w2 = (r, w3)"
        by (cases "try_body env p tf tn cs ts tot idx qr ?w2") auto
      have "temps w3 = ?t # temps w" using try_body_fields(1) [OF tb] by simp
      then have "temps (unlink_temp ?t w3) = temps w" by simp
      then show ?thesis using Inr None tb by (simp add: record_body_def)
    qed
  qed
qed

lemma record_body_fields:
  assumes "record_body env p tf tn cs ts tot idx link w = (r, w')"
  shows "history w' = history w" "finished_signal w' = finished_signal w"
    "warnings w' = warnings w" "dirs w' = dirs w"
  using assms
  by (auto simp: record_body_def Let_def split: sum.splits option.splits prod.splits
      dest: try_body_fields)

lemma record_body_progress:
  assumes "record_body env p tf tn cs ts tot idx link w = (r, w')"
  shows "progress_signal w' =
     progress_signal w @ (if r = None then [progress_percent idx tot] else [])"
  using assms
  by (auto simp: record_body_def Let_def split: sum.splits option.splits prod.splits
      dest: try_body_progress)

lemma record_body_files:
  assumes "record_body env p tf tn cs ts tot idx link w = (r, w')"
  shows "files w' = files (write_text (formatted_file p) (formatted_entry p idx link) w)
     \<or> (r = None \<and> (\<exists>img fmt. save_format (output_format p) = Some fmt
            \<and> files w' = (files (write_text (formatted_file p) (formatted_entry p idx link) w))
                 (output_file p tn idx \<mapsto> Picture img fmt (output_quality p))))"
  using assms
  by (auto simp: record_body_def Let_def split: sum.splits option.splits prod.splits
      dest!: try_body_files)

lemma record_body_dom:
  assumes "record_body env p tf tn cs ts tot idx link w = (r, w')"
  shows "dom (files w) \<subseteq> dom (files w')"
  using record_body_files [OF assms] by (auto simp: write_text_files)

lemma record_body_written:
  assumes "record_body env p tf tn cs ts tot idx link w = (None, w')"
    "save_format (output_format p) \<noteq> None"
  shows "output_file p tn idx \<in> dom (files w')"
  using assms
  by (auto simp: record_body_def Let_def split: sum.splits option.splits prod.splits
      dest!: try_body_written)


subsection \<open>Paths\<close>

lemma lower_formats:
  "lower ''PNG'' = ''png''" "lower ''JPG'' = ''jpg''" "lower ''WEBP'' = ''webp''"
  by code_simp+

lemma last_path_join: "b \<noteq> [] \<Longrightarrow> last (path_join a b) = last b"
  by (simp add: path_join_def)

lemma output_file_not_formatted:
  assumes "save_format (output_format p) = Some fmt"
  shows "output_file p tn idx \<noteq> formatted_file p"
proof -
  have "output_format p = ''PNG'' \<or> output_format p = ''JPG'' \<or> output_format p = ''WEBP''"
    using assms by (auto simp: save_format_def split: if_splits)
  then have "last (output_file p tn idx) \<noteq> CHR ''t''"
    unfolding output_file_def by (auto simp: last_path_join lower_formats)
  moreover have "last (formatted_file p) = CHR ''t''"
    unfolding formatted_file_def by (simp add: last_path_join)
  ultimately show ?thesis by auto
qed

lemma record_body_formatted:
  assumes "record_body env p tf tn cs ts tot idx link w = (r, w')"
    "files w (formatted_file p) = Some (Text old)"
  shows "files w' (formatted_file p) = Some (Text (old @ formatted_entry p idx link))"
  using record_body_files [OF assms(1)] assms(2) output_file_not_formatted [of p _ tn idx]
  by (auto simp: write_text_files)

subsection \<open>The loop\<close>

lemma records_loop_temps:
  "temps (snd (records_loop env p tf tn cs ts tot idx links w)) = temps w"
proof (induction links arbitrary: idx w)
  case Nil
  then show ?case by simp
next
  case (Cons link links)
  obtain r w1 where rb: "record_body env p tf tn cs ts tot idx link w = (r, w1)"
    by (cases "record_body env p tf tn cs ts tot idx link w") auto
  have t1: "temps w1 = temps w" using record_body_temps [of env p tf tn cs ts tot idx link w] rb by simp
  show ?case
  proof (cases r)
    case None
    then show ?thesis using rb t1 Cons.IH [of "Suc idx" w1] by simp
  next
    case (Some e)
    then show ?thesis using rb t1 by simp
  qed
qed

lemma records_loop_fields:
  assumes "records_loop env p tf tn cs ts tot idx links w = (res, w')"
  shows "history w' = history w \<and> finished_signal w' = finished_signal w
     \<and> warnings w' = warnings w \<and> dirs w' = dirs w \<and> dom (files w) \<subseteq> dom (files w')"
  using assms
proof (induction links arbitrary: idx w)
  case Nil
  then show ?case by simp
next
  case (Cons link links)
  obtain r w1 where rb: "record_body env p tf tn cs ts tot idx link w = (r, w1)"
    by (cases "record_body env p tf tn cs ts tot idx link w") auto
  note f = record_body_fields [OF rb] record_body_dom [OF rb]
  show ?case
  proof (cases r)
    case None
    then have "records_loop env p tf tn cs ts tot (Suc idx) links w1 = (res, w')"
      using Cons.prems rb by simp
    from Cons.IH [OF this] have
      "history w' = history w1 \<and> finished_signal w' = finished_signal w1
       \<and> warnings w' = warnings w1 \<and> dirs w' = dirs w1 \<and> dom (files w1) \<subseteq> dom (files w')" .
    moreover have "dom (files w) \<subseteq> dom (files w1)" by (rule f)
    ultimately show ?thesis using f(1-4) by (simp add: subset_trans)
  next
    case (Some e)
    then show ?thesis using Cons.prems rb f by auto
  qed
qed

lemma records_loop_completed:
  assumes "records_loop env p tf tn cs ts tot idx links w = (None, w')"
  shows "progress_signal w' =
     progress_signal w @ map (\<lambda>i. progress_percent i tot) [idx ..< idx + length links]"
  using assms
proof (induction links arbitrary: idx w)
  case Nil
  then show ?case by simp
next
  case (Cons link links)
  obtain r w1 where rb: "record_body env p tf tn cs ts tot idx link w = (r, w1)"
    by (cases "record_body env p tf tn cs ts tot idx link w") auto
  have r: "r = None" using Cons.prems rb by (cases r) auto
  then have rest: "records_loop env p tf tn cs ts tot (Suc idx) links w1 = (None, w')"
    using Cons.prems rb by simp
  have p1: "progress_signal w1 = progress_signal w @ [progress_percent idx tot]"
    using record_body_progress [OF rb] r by simp
  have e: "[idx ..< idx + length (link # links)] = idx # [Suc idx ..< Suc idx + length links]"
    by (simp add: upt_conv_Cons del: upt_Suc)
  have "progress_signal w' =
      progress_signal w1 @ map (\<lambda>i. progress_percent i tot) [Suc idx ..< Suc idx + length links]"
    using Cons.IH [OF rest] .
  then show ?case unfolding e p1 by (simp del: upt_Suc)
qed

lemma records_loop_failed:
  assumes "records_loop env p tf tn cs ts tot idx links w = (Some (i, e), w')"
  shows "idx \<le> i \<and> i < idx + length links
     \<and> (save_format (output_format p) \<noteq> None
          \<longrightarrow> (\<forall>k. idx \<le> k \<and> k < i \<longrightarrow> output_file p tn k \<in> dom (files w')))"
  using assms
proof (induction links arbitrary: idx w)
  case Nil
  then show ?case by simp
next
  case (Cons link links)
  obtain r w1 where rb: "record_body env p tf tn cs ts tot idx link w = (r, w1)"
    by (cases "record_body env p tf tn cs ts tot idx link w") auto
  show ?case
  proof (cases r)
    case None
    then have rest: "records_loop env p tf tn cs ts tot (Suc idx) links w1 = (Some (i, e), w')"
      using Cons.prems rb by simp
    note ih = Cons.IH [OF rest]
    have grow: "dom (files w1) \<subseteq> dom (files w')" using records_loop_fields [OF rest] by simp
    have here: "save_format (output_format p) \<noteq> None \<Longrightarrow> output_file p tn idx \<in> dom (files w')"
      using record_body_written [of env p tf tn cs ts tot idx link w w1] rb None grow by auto
    show ?thesis
    proof (intro conjI impI allI)
      show "idx \<le> i" using ih by simp
      show "i < idx + length (link # links)" using ih by simp
      fix k assume fmt: "save_format (output_format p) \<noteq> None" and k: "idx \<le> k \<and> k < i"
      show "output_file p tn k \<in> dom (files w')"
      proof (cases "k = idx")
        case True
        then show ?thesis using here fmt by simp
      next
        case False
        then have "Suc idx \<le> k \<and> k < i" using k by simp
        then show ?thesis using ih fmt by blast
      qed
    qed
  next
    case (Some e')
    then have "i = idx" using Cons.prems rb by simp
    then show ?thesis by auto
  qed
qed

lemma records_loop_formatted:
  assumes "records_loop env p tf tn cs ts tot idx links w = (res, w')"
    "files w (formatted_file p) = Some (Text old)"
  shows "files w' (formatted_file p) =
     Some (Text (old @ formatted_contents p idx
        (case res of None \<Rightarrow> links | Some (i, e) \<Rightarrow> take (Suc i - idx) links)))"
  using assms
proof (induction links arbitrary: idx w old)
  case Nil
  then show ?case by simp
next
  case (Cons link links)
  obtain r w1 where rb: "record_body env p tf tn cs ts tot idx link w = (r, w1)"
    by (cases "record_body env p tf tn cs ts tot idx link w") auto
  have f1: "files w1 (formatted_file p) = Some (Text (old @ formatted_entry p idx link))"
    using record_body_formatted [OF rb Cons.prems(2)] .
  show ?case
  proof (cases r)
    case None
    then have rest: "records_loop env p tf tn cs ts tot (Suc idx) links w1 = (res, w')"
      using Cons.prems rb by simp
    have ih: "files w' (formatted_file p) =
       Some (Text ((old @ formatted_entry p idx link) @ formatted_contents p (Suc idx)
          (case res of None \<Rightarrow> links | Some (i, e) \<Rightarrow> take (Suc i - Suc idx) links)))"
      using Cons.IH [OF rest f1] .
    show ?thesis
    proof (cases res)
      case None
      then show ?thesis using ih by simp
    next
      case (Some ie)
      obtain i e where ie: "ie = (i, e)" by (cases ie) auto
      have "Suc idx \<le> i" using records_loop_failed [of env p tf tn cs ts tot "Suc idx" links w1 i e w'] rest Some ie by simp
      then have "Suc i - idx = Suc (Suc i - Suc idx)" by simp
      then show ?thesis using ih Some ie by simp
    qed
  next
    case (Some e')
    then have "res = Some (idx, e')" "w' = w1" using Cons.prems rb by auto
    then show ?thesis using f1 by simp
  qed
qed


subsection \<open>Reading the input\<close>

lemma ascii_well_formed: "\<forall>b \<in> set bs. b < 128 \<Longrightarrow> well_formed bs"
  by (induction bs) simp_all

lemma ascii_valid_utf8: "\<forall>c \<in> set s. (of_char c :: nat) < 128 \<Longrightarrow> valid_utf8 s"
  unfolding valid_utf8_def by (rule ascii_well_formed) simp

lemma universal_newlines_id: "CHR 0x0D \<notin> set s \<Longrightarrow> universal_newlines s = s"
  by (induction s) auto

lemma read_lines_Inr:
  "read_lines env w path = Inr raw \<longleftrightarrow>
     (\<exists>c. files w path = Some c \<and> open_read_error env path = None
        \<and> valid_utf8 (bytes_of env c) \<and> raw = readlines (bytes_of env c))"
  by (auto simp: read_lines_def split: option.splits)

lemma read_lines_text:
  assumes "files w path = Some (Text s)" "open_read_error env path = None" "valid_utf8 s"
  shows "read_lines env w path = Inr (readlines s)"
  using assms by (simp add: read_lines_def bytes_of_def)

lemma read_lines_text_Inr:
  assumes "read_lines env w path = Inr raw" "files w path = Some (Text s)"
  shows "raw = readlines s"
  using assms by (auto simp: read_lines_Inr bytes_of_def)

lemma read_lines_dirs:
  "(read_lines env (w\<lparr>dirs := d\<rparr>) path = Inr raw) = (read_lines env w path = Inr raw)"
  by (simp add: read_lines_Inr)

lemma read_lines_directory:
  assumes "files w path = None" "path \<in> dirs w"
  shows "read_lines env w path = Inl (Exception (is_a_directory path))"
  using assms by (simp add: read_lines_def)


subsection \<open>The whole run\<close>

lemma loop_start_fields [simp]:
  "temps (loop_start p w) = temps w"
  "history (loop_start p w) = history w"
  "finished_signal (loop_start p w) = finished_signal w"
  "warnings (loop_start p w) = warnings w"
  "progress_signal (loop_start p w) = progress_signal w @ [0]"
  "files (loop_start p w) = (files w)(formatted_file p \<mapsto> Text [])"
  "dirs (loop_start p w) = insert (output_dir p) (dirs w)"
  by (simp_all add: loop_start_def)

lemma handle_exception_fields [simp]:
  "files (handle_exception e w) = files w"
  "temps (handle_exception e w) = temps w"
  "history (handle_exception e w) = history w"
  "progress_signal (handle_exception e w) = progress_signal w"
  "warnings (handle_exception e w) = warnings w"
  "dirs (handle_exception e w) = dirs w"
  by (simp_all add: handle_exception_def split: exn.splits)


lemma run_outcome_loop:
  assumes "makedirs_error env (output_dir p) = None"
    "read_lines env w (input_file p) = Inr raw"
    "open_write_error env (formatted_file p) = None"
  shows "run_outcome env p w =
     (case run_loop env p (links_of raw) w of
        (Some (i, e), w3) \<Rightarrow> (Record_failed i e, handle_exception e w3)
      | (None, w3) \<Rightarrow>
          (Completed (length (links_of raw)),
           emit_finished True (success_message (length (links_of raw)) (output_dir p))
             (append_history p env (get_template_name (selected_template p) (custom_templates p))
                (length (links_of raw)) w3)))"
proof -
  have "read_lines env (w\<lparr>dirs := insert (output_dir p) (dirs w)\<rparr>) (input_file p) = Inr raw"
    using assms(2) by (simp add: read_lines_dirs)
  then show ?thesis
    using assms(1,3)
    by (simp add: run_outcome_def run_loop_def loop_start_def Let_def emit_progress_def)
qed

lemma run_outcome_reached_loop:
  assumes "run_outcome env p w = (out, w')" "\<forall>e. out \<noteq> Setup_failed e"
  shows "makedirs_error env (output_dir p) = None
     \<and> (\<exists>raw. read_lines env w (input_file p) = Inr raw)
     \<and> open_write_error env (formatted_file p) = None"
proof -
  let ?w0 = "w\<lparr>dirs := insert (output_dir p) (dirs w)\<rparr>"
  have m: "makedirs_error env (output_dir p) = None"
    using assms by (auto simp: run_outcome_def split: option.splits)
  obtain raw where r0: "read_lines env ?w0 (input_file p) = Inr raw"
    using assms m by (cases "read_lines env ?w0 (input_file p)") (auto simp: run_outcome_def)
  have o: "open_write_error env (formatted_file p) = None"
    using assms m r0 by (auto simp: run_outcome_def Let_def split: option.splits)
  from r0 have "read_lines env w (input_file p) = Inr raw" by (simp add: read_lines_dirs)
  then show ?thesis using m o by blast
qed

lemma run_outcome_failed:
  assumes "run_outcome env p w = (Record_failed i e, w')"
  obtains raw w3 where "read_lines env w (input_file p) = Inr raw"
    "run_loop env p (links_of raw) w = (Some (i, e), w3)"
    "w' = handle_exception e w3"
proof -
  have "\<forall>e'. Record_failed i e \<noteq> Setup_failed e'" by simp
  from run_outcome_reached_loop [OF assms this]
  obtain raw where r: "makedirs_error env (output_dir p) = None"
      "read_lines env w (input_file p) = Inr raw"
      "open_write_error env (formatted_file p) = None" by blast
  obtain res w3 where l: "run_loop env p (links_of raw) w = (res, w3)"
    by (cases "run_loop env p (links_of raw) w") auto
  show ?thesis
    using assms l r(2) that [of raw w3] unfolding run_outcome_loop [OF r]
    by (auto split: option.splits prod.splits)
qed

lemma run_outcome_completed:
  assumes "run_outcome env p w = (Completed n, w')"
  obtains raw w3 where "read_lines env w (input_file p) = Inr raw"
    "n = length (links_of raw)"
    "run_loop env p (links_of raw) w = (None, w3)"
    "w' = emit_finished True (success_message n (output_dir p))
       (append_history p env (get_template_name (selected_template p) (custom_templates p)) n w3)"
proof -
  have "\<forall>e'. Completed n \<noteq> Setup_failed e'" by simp
  from run_outcome_reached_loop [OF assms this]
  obtain raw where r: "makedirs_error env (output_dir p) = None"
      "read_lines env w (input_file p) = Inr raw"
      "open_write_error env (formatted_file p) = None" by blast
  obtain res w3 where l: "run_loop env p (links_of raw) w = (res, w3)"
    by (cases "run_loop env p (links_of raw) w") auto
  show ?thesis
    using assms l r(2) that [of raw w3] unfolding run_outcome_loop [OF r]
    by (auto split: option.splits prod.splits)
qed


subsection \<open>The call that raised\<close>




subsection \<open>The example job\<close>

lemma example_links:
  "links_of (readlines example_input)
     = [''https://a.example'', ''example.com'', ''WIFI:T:WPA;S:net;P:pw;;'']"
  by code_simp

lemma example_links_spaced:
  "links_of (readlines example_input_spaced)
     = [''https://a.example'', ''example.com'', ''WIFI:T:WPA;S:net;P:pw;;'']"
  by code_simp

lemma example_links_blank: "links_of (readlines example_input_blank) = []"
  by code_simp

lemma example_valid:
  "valid_utf8 example_input" "valid_utf8 example_input_spaced" "valid_utf8 example_input_blank"
  by code_simp+


lemma example_failed_spaced:
  "fst (run_outcome (example_env [''VPN 2'']) example_parent (example_world example_input_spaced))
     = Record_failed 2 (Exception ''render failed'')"
  by code_simp



lemma example_read:
  "files (example_world input) (input_file example_parent) = Some (Text input)"
  by (simp add: example_world_def example_parent_def)


lemma example_formatted_file: "formatted_file example_parent = ''qr_results/formatted_links.txt''"
  by code_simp

lemma record_body_example:
  "fst (record_body (example_env []) p tf tn cs ts tot idx link w) = None"
  by (simp add: record_body_def try_body_def save_card_def example_env_def Let_def
      split: option.splits prod.splits)

lemma records_loop_example:
  "fst (records_loop (example_env []) p tf tn cs ts tot idx links w) = None"
proof (induction links arbitrary: idx w)
  case Nil
  then show ?case by simp
next
  case (Cons link links)
  obtain r w1 where rb: "record_body (example_env []) p tf tn cs ts tot idx link w = (r, w1)"
    by (cases "record_body (example_env []) p tf tn cs ts tot idx link w") auto
  have "r = None" using record_body_example [of p tf tn cs ts tot idx link w] rb by simp
  then show ?case using rb Cons.IH [of "Suc idx" w1] by simp
qed

lemma run_example_completes:
  assumes "files w (input_file p) = Some (Text s)" "valid_utf8 s"
  shows "run_outcome (example_env []) p w
     = (Completed (length (links_of (readlines s))), run (example_env []) p w)"
proof -
  have m: "makedirs_error (example_env []) (output_dir p) = None"
    and o: "open_write_error (example_env []) (formatted_file p) = None"
    and r: "open_read_error (example_env []) (input_file p) = None"
    by (simp_all add: example_env_def)
  have rd: "read_lines (example_env []) w (input_file p) = Inr (readlines s)"
    using assms(1) r assms(2) by (rule read_lines_text)
  obtain res w3 where l: "run_loop (example_env []) p (links_of (readlines s)) w = (res, w3)"
    by (cases "run_loop (example_env []) p (links_of (readlines s)) w") auto
  have "fst (run_loop (example_env []) p (links_of (readlines s)) w) = None"
    unfolding run_loop_def by (rule records_loop_example)
  then have "res = None" using l by simp
  then have "fst (run_outcome (example_env []) p w) = Completed (length (links_of (readlines s)))"
    unfolding run_outcome_loop [OF m rd o] l by simp
  then show ?thesis by (simp add: run_def prod_eq_iff)
qed

subsection \<open>An exception in the loop body\<close>




subsection \<open>The temporary file of a record\<close>

lemma run_temps: "temps (run env p w) = temps w"
proof (cases "makedirs_error env (output_dir p)")
  case (Some e)
  then show ?thesis by (simp add: run_def run_outcome_def)
next
  case None
  let ?w0 = "w\<lparr>dirs := insert (output_dir p) (dirs w)\<rparr>"
  show ?thesis
  proof (cases "read_lines env ?w0 (input_file p)")
    case (Inl e)
    then show ?thesis using None by (simp add: run_def run_outcome_def)
  next
    case (Inr raw)
    then have rd: "read_lines env w (input_file p) = Inr raw" by (simp add: read_lines_dirs)
    show ?thesis
    proof (cases "open_write_error env (formatted_file p)")
      case (Some e)
      then show ?thesis using None Inr by (simp add: run_def run_outcome_def Let_def)
    next
      case no: None
      obtain res w3 where l: "run_loop env p (links_of raw) w = (res, w3)"
        by (cases "run_loop env p (links_of raw) w") auto
      have "temps (snd (run_loop env p (links_of raw) w)) = temps (loop_start p w)"
        unfolding run_loop_def by (rule records_loop_temps)
      then have "temps w3 = temps w" using l by simp
      then show ?thesis
        unfolding run_def run_outcome_loop [OF None rd no] l
        by (auto split: option.splits)
    qed
  qed
qed

text \<open>
  Claim C9. Whatever the collaborators do (the encoder, the template and the saving may
  return or raise), the temporary file that the loop body creates for a record is gone
  when the body is left: the temporary files after one record are those before it, and
  so are the temporary files after the whole run.
\<close>

theorem temp_file_released:
  "temps (snd (record_body env p tf tn cs ts tot idx link w)) = temps w
   \<and> fresh_temp (temps w) \<notin> set (temps (snd (record_body env p tf tn cs ts tot idx link w)))
   \<and> temps (run env p w) = temps w"
  using record_body_temps [of env p tf tn cs ts tot idx link w] fresh_temp_new [of "temps w"]
    run_temps [of env p w]
  by simp

theorem temp_file_released_witness:
  "temps (run (example_env [''VPN 2'']) example_parent (example_world example_input)) = []
   \<and> temps (run (example_env []) example_parent (example_world example_input)) = []"
  using temp_file_released [of "example_env [''VPN 2'']" example_parent _ _ _ _ _ _ _
      "example_world example_input"]
    temp_file_released [of "example_env []" example_parent _ _ _ _ _ _ _
      "example_world example_input"]
  by (simp add: example_world_def)

subsection \<open>The file of formatted links\<close>

text \<open>
  Claim C10. A run that reaches the loop leaves the file \<open>formatted_links.txt\<close> in the
  output directory. After a completed run it holds, for every record in input order, the
  label, a line feed, the payload as read (not normalised) between backticks, and two
  line feeds. After a run that fails at the record \<open>i\<close> it holds the entries of the
  records 1 to \<open>i\<close>: the entry of a record is written before the record is encoded. The
  records are the lines of the input file (ended by a line feed, a carriage return, or
  both) that are not blank, without the whitespace around them.
\<close>

theorem formatted_links_written:
  assumes "run_outcome env p w = (out, w')" "files w (input_file p) = Some (Text s)"
  shows "(\<forall>n. out = Completed n \<longrightarrow>
            files w' (formatted_file p)
              = Some (Text (formatted_contents p 1 (links_of (readlines s)))))
       \<and> (\<forall>i e. out = Record_failed i e \<longrightarrow>
            files w' (formatted_file p)
              = Some (Text (formatted_contents p 1 (take i (links_of (readlines s))))))"
proof -
  have start: "files (loop_start p w) (formatted_file p) = Some (Text [])" by simp
  have completed: "files w' (formatted_file p)
        = Some (Text (formatted_contents p 1 (links_of (readlines s))))"
    if "out = Completed n" for n
  proof -
    have "run_outcome env p w = (Completed n, w')" using assms(1) that by simp
    then obtain raw w3 where raw: "read_lines env w (input_file p) = Inr raw"
      and loop: "run_loop env p (links_of raw) w = (None, w3)"
      and w': "w' = emit_finished True (success_message n (output_dir p))
         (append_history p env (get_template_name (selected_template p) (custom_templates p)) n w3)"
      by (rule run_outcome_completed)
    have "raw = readlines s" using raw assms(2) by (rule read_lines_text_Inr)
    then show ?thesis
      using records_loop_formatted [OF loop [unfolded run_loop_def] start] by (simp add: w')
  qed
  have failed: "files w' (formatted_file p)
        = Some (Text (formatted_contents p 1 (take i (links_of (readlines s)))))"
    if "out = Record_failed i e" for i e
  proof -
    have "run_outcome env p w = (Record_failed i e, w')" using assms(1) that by simp
    then obtain raw w3 where raw: "read_lines env w (input_file p) = Inr raw"
      and loop: "run_loop env p (links_of raw) w = (Some (i, e), w3)"
      and w': "w' = handle_exception e w3"
      by (rule run_outcome_failed)
    have "raw = readlines s" using raw assms(2) by (rule read_lines_text_Inr)
    then show ?thesis
      using records_loop_formatted [OF loop [unfolded run_loop_def] start] by (simp add: w')
  qed
  show ?thesis using completed failed by blast
qed

lemma example_contents:
  "formatted_contents example_parent 1 [''https://a.example'', ''example.com'']
     = ''VPN 1'' @ nl @ ''`https://a.example`'' @ nl @ nl
       @ ''VPN 2'' @ nl @ ''`example.com`'' @ nl @ nl"
  "formatted_contents example_parent 1
       [''https://a.example'', ''example.com'', ''WIFI:T:WPA;S:net;P:pw;;'']
     = ''VPN 1'' @ nl @ ''`https://a.example`'' @ nl @ nl
       @ ''VPN 2'' @ nl @ ''`example.com`'' @ nl @ nl
       @ ''VPN 3'' @ nl @ ''`WIFI:T:WPA;S:net;P:pw;;`'' @ nl @ nl"
  by code_simp+

theorem formatted_links_written_witness:
  "files (run (example_env [''VPN 2'']) example_parent (example_world example_input_spaced))
      ''qr_results/formatted_links.txt''
     = Some (Text (''VPN 1'' @ nl @ ''`https://a.example`'' @ nl @ nl
                   @ ''VPN 2'' @ nl @ ''`example.com`'' @ nl @ nl))
   \<and> files (run (example_env []) example_parent (example_world example_input_spaced))
      ''qr_results/formatted_links.txt''
     = Some (Text (''VPN 1'' @ nl @ ''`https://a.example`'' @ nl @ nl
                   @ ''VPN 2'' @ nl @ ''`example.com`'' @ nl @ nl
                   @ ''VPN 3'' @ nl @ ''`WIFI:T:WPA;S:net;P:pw;;`'' @ nl @ nl))"
proof -
  let ?w = "example_world example_input_spaced"
  have f: "run_outcome (example_env [''VPN 2'']) example_parent ?w
      = (Record_failed 2 (Exception ''render failed''),
         run (example_env [''VPN 2'']) example_parent ?w)"
    using example_failed_spaced by (simp add: run_def prod_eq_iff)
  have c: "run_outcome (example_env []) example_parent ?w
      = (Completed 3, run (example_env []) example_parent ?w)"
    using run_example_completes [OF example_read example_valid(2)]
    by (simp add: example_links_spaced)
  have two: "take 2 [''https://a.example'', ''example.com'', ''WIFI:T:WPA;S:net;P:pw;;'']
      = [''https://a.example'', ''example.com'']"
    by simp
  have "files (run (example_env [''VPN 2'']) example_parent ?w) (formatted_file example_parent)
      = Some (Text (formatted_contents example_parent 1
          (take 2 (links_of (readlines example_input_spaced)))))"
    using formatted_links_written [OF f example_read] by blast
  then have failed: "files (run (example_env [''VPN 2'']) example_parent ?w)
        ''qr_results/formatted_links.txt''
      = Some (Text (''VPN 1'' @ nl @ ''`https://a.example`'' @ nl @ nl
                   @ ''VPN 2'' @ nl @ ''`example.com`'' @ nl @ nl))"
    unfolding example_links_spaced two example_contents example_formatted_file .
  have "files (run (example_env []) example_parent ?w) (formatted_file example_parent)
      = Some (Text (formatted_contents example_parent 1
          (links_of (readlines example_input_spaced))))"
    using formatted_links_written [OF c example_read] by blast
  then have completed: "files (run (example_env []) example_parent ?w)
        ''qr_results/formatted_links.txt''
      = Some (Text (''VPN 1'' @ nl @ ''`https://a.example`'' @ nl @ nl
                   @ ''VPN 2'' @ nl @ ''`example.com`'' @ nl @ nl
                   @ ''VPN 3'' @ nl @ ''`WIFI:T:WPA;S:net;P:pw;;`'' @ nl @ nl))"
    unfolding example_links_spaced example_contents example_formatted_file .
  show ?thesis using failed completed by (rule conjI)
qed


subsection \<open>Starting a run\<close>

lemma success_message_0:
  "success_message 0 dir
     = check_mark @ '' Generated 0 QR codes successfully!'' @ nl @ nl @ folder_sign
       @ '' Path: '' @ dir"
proof -
  have "str_nat 0 = ''0''" by code_simp
  then show ?thesis by (simp add: success_message_def)
qed

lemma run_no_records:
  assumes "makedirs_error env (output_dir p) = None"
    "files w (input_file p) = Some (Text s)"
    "open_read_error env (input_file p) = None"
    "valid_utf8 s"
    "links_of (readlines s) = []"
    "open_write_error env (formatted_file p) = None"
  shows "run env p w =
     emit_finished True (success_message 0 (output_dir p))
       (append_history p env (get_template_name (selected_template p) (custom_templates p)) 0
          (loop_start p w))"
proof -
  have rd: "read_lines env w (input_file p) = Inr (readlines s)"
    using assms(2,3,4) by (rule read_lines_text)
  show ?thesis
    unfolding run_def run_outcome_loop [OF assms(1) rd assms(6)]
    by (simp add: assms(5) run_loop_def)
qed

lemma run_directory:
  assumes "makedirs_error env (output_dir p) = None"
    "files w (input_file p) = None" "input_file p \<in> dirs w"
  shows "run env p w =
     emit_finished False (failure_message (is_a_directory (input_file p)))
       (w\<lparr>dirs := insert (output_dir p) (dirs w)\<rparr>)"
proof -
  have "read_lines env (w\<lparr>dirs := insert (output_dir p) (dirs w)\<rparr>) (input_file p)
      = Inl (Exception (is_a_directory (input_file p)))"
    using assms(2,3) by (simp add: read_lines_directory)
  then show ?thesis
    using assms(1) by (simp add: run_def run_outcome_def handle_exception_def)
qed

text \<open>
  Claim C4, as the code has it. Starting a run requires the input path to be set and to
  exist, as a file or as a directory: otherwise a warning is shown and nothing else
  happens, and when both hold the worker runs. The content of the file is not examined.
  An input file without records (no line with anything but whitespace) starts a run that
  emits the progress 0, creates an empty \<open>formatted_links.txt\<close>, appends a history record
  with the count 0 and reports the success of generating 0 codes. An input path that is a
  directory starts a run that reports the failure to open it.
\<close>

theorem start_generation_guards:
  "(input_file p = [] \<longrightarrow>
      start_generation env p w = w\<lparr>warnings := warnings w @ [''Please select input file'']\<rparr>)
   \<and> (input_file p \<noteq> [] \<and> \<not> path_exists w (input_file p) \<longrightarrow>
      start_generation env p w = w\<lparr>warnings := warnings w @ [''Input file does not exist'']\<rparr>)
   \<and> (input_file p \<noteq> [] \<and> path_exists w (input_file p) \<longrightarrow>
      start_generation env p w = run env p w)
   \<and> (input_file p \<noteq> [] \<and> files w (input_file p) = Some (Text s)
        \<and> valid_utf8 s \<and> links_of (readlines s) = []
        \<and> makedirs_error env (output_dir p) = None
        \<and> open_read_error env (input_file p) = None
        \<and> open_write_error env (formatted_file p) = None \<longrightarrow>
      warnings (start_generation env p w) = warnings w
      \<and> progress_signal (start_generation env p w) = progress_signal w @ [0]
      \<and> files (start_generation env p w) = (files w)(formatted_file p \<mapsto> Text [])
      \<and> history (start_generation env p w) = history w @
           [\<lparr>h_date = now env,
             h_template = get_template_name (selected_template p) (custom_templates p),
             h_count = 0, h_output_dir = output_dir p\<rparr>]
      \<and> finished_signal (start_generation env p w) =
           finished_signal w @
             [(True, check_mark @ '' Generated 0 QR codes successfully!'' @ nl @ nl
                     @ folder_sign @ '' Path: '' @ output_dir p)])
   \<and> (input_file p \<noteq> [] \<and> files w (input_file p) = None \<and> input_file p \<in> dirs w
        \<and> makedirs_error env (output_dir p) = None \<longrightarrow>
      warnings (start_generation env p w) = warnings w
      \<and> progress_signal (start_generation env p w) = progress_signal w
      \<and> files (start_generation env p w) = files w
      \<and> history (start_generation env p w) = history w
      \<and> finished_signal (start_generation env p w) =
           finished_signal w @
             [(False, cross_mark @ '' Failed to generate QR codes:'' @ nl
                      @ ''[Errno 21] Is a directory: '' @ [CHR 0x27] @ input_file p
                      @ [CHR 0x27])])"
proof (intro conjI impI)
  show "start_generation env p w = w\<lparr>warnings := warnings w @ [''Please select input file'']\<rparr>"
    if "input_file p = []"
    using that by (simp add: start_generation_def)
  show "start_generation env p w = w\<lparr>warnings := warnings w @ [''Input file does not exist'']\<rparr>"
    if "input_file p \<noteq> [] \<and> \<not> path_exists w (input_file p)"
    using that by (simp add: start_generation_def)
  show "start_generation env p w = run env p w"
    if "input_file p \<noteq> [] \<and> path_exists w (input_file p)"
    using that by (simp add: start_generation_def)
next
  assume a: "input_file p \<noteq> [] \<and> files w (input_file p) = Some (Text s)
        \<and> valid_utf8 s \<and> links_of (readlines s) = []
        \<and> makedirs_error env (output_dir p) = None
        \<and> open_read_error env (input_file p) = None
        \<and> open_write_error env (formatted_file p) = None"
  have sg: "start_generation env p w =
     emit_finished True (success_message 0 (output_dir p))
       (append_history p env (get_template_name (selected_template p) (custom_templates p)) 0
          (loop_start p w))"
    using a run_no_records [of env p w s] by (simp add: start_generation_def path_exists_def)
  show "warnings (start_generation env p w) = warnings w" unfolding sg by simp
  show "progress_signal (start_generation env p w) = progress_signal w @ [0]"
    unfolding sg by simp
  show "files (start_generation env p w) = (files w)(formatted_file p \<mapsto> Text [])"
    unfolding sg by simp
  show "history (start_generation env p w) = history w @
           [\<lparr>h_date = now env,
             h_template = get_template_name (selected_template p) (custom_templates p),
             h_count = 0, h_output_dir = output_dir p\<rparr>]"
    unfolding sg by simp
  show "finished_signal (start_generation env p w) =
           finished_signal w @
             [(True, check_mark @ '' Generated 0 QR codes successfully!'' @ nl @ nl
                     @ folder_sign @ '' Path: '' @ output_dir p)]"
    unfolding sg success_message_0 by simp
next
  assume a: "input_file p \<noteq> [] \<and> files w (input_file p) = None \<and> input_file p \<in> dirs w
        \<and> makedirs_error env (output_dir p) = None"
  have sg: "start_generation env p w =
     emit_finished False (failure_message (is_a_directory (input_file p)))
       (w\<lparr>dirs := insert (output_dir p) (dirs w)\<rparr>)"
    using a run_directory [of env p w] by (simp add: start_generation_def path_exists_def)
  show "warnings (start_generation env p w) = warnings w" unfolding sg by simp
  show "progress_signal (start_generation env p w) = progress_signal w" unfolding sg by simp
  show "files (start_generation env p w) = files w" unfolding sg by simp
  show "history (start_generation env p w) = history w" unfolding sg by simp
  show "finished_signal (start_generation env p w) =
           finished_signal w @
             [(False, cross_mark @ '' Failed to generate QR codes:'' @ nl
                      @ ''[Errno 21] Is a directory: '' @ [CHR 0x27] @ input_file p
                      @ [CHR 0x27])]"
    unfolding sg by (simp add: failure_message_def is_a_directory_def)
qed

lemma example_template_name:
  "get_template_name (selected_template example_parent) (custom_templates example_parent)
     = ''Modern Gradient''"
  by (simp add: get_template_name_def template_names_def example_parent_def)

theorem start_generation_guards_witness:
  "start_generation (example_env []) (example_parent\<lparr>input_file := []\<rparr>)
        (example_world example_input_blank)
     = (example_world example_input_blank)\<lparr>warnings := [''Please select input file'']\<rparr>
   \<and> start_generation (example_env []) (example_parent\<lparr>input_file := ''missing.txt''\<rparr>)
        (example_world example_input_blank)
     = (example_world example_input_blank)\<lparr>warnings := [''Input file does not exist'']\<rparr>
   \<and> start_generation (example_env []) example_parent (example_world example_input_blank)
     = run (example_env []) example_parent (example_world example_input_blank)
   \<and> links_of (readlines example_input_blank) = []
   \<and> warnings (start_generation (example_env []) example_parent
        (example_world example_input_blank)) = []
   \<and> progress_signal (start_generation (example_env []) example_parent
        (example_world example_input_blank)) = [0]
   \<and> history (start_generation (example_env []) example_parent
        (example_world example_input_blank)) =
        [\<lparr>h_date = ''2024-05-01 12:00:00'', h_template = ''Modern Gradient'', h_count = 0,
          h_output_dir = ''qr_results''\<rparr>]
   \<and> finished_signal (start_generation (example_env []) example_parent
        (example_world example_input_blank)) =
        [(True, check_mark @ '' Generated 0 QR codes successfully!'' @ nl @ nl
                @ folder_sign @ '' Path: qr_results'')]
   \<and> warnings (start_generation (example_env []) example_parent example_dir_world) = []
   \<and> history (start_generation (example_env []) example_parent example_dir_world) = []
   \<and> finished_signal (start_generation (example_env []) example_parent example_dir_world) =
        [(False, cross_mark @ '' Failed to generate QR codes:'' @ nl
                 @ ''[Errno 21] Is a directory: '' @ [CHR 0x27] @ ''links.txt'' @ [CHR 0x27])]"
proof -
  let ?w = "example_world example_input_blank"
  have e: "makedirs_error (example_env []) d = None"
    "open_read_error (example_env []) f = None"
    "open_write_error (example_env []) f = None"
    "now (example_env []) = ''2024-05-01 12:00:00''" for d f
    by (simp_all add: example_env_def)
  have p: "input_file example_parent = ''links.txt''" "output_dir example_parent = ''qr_results''"
    "input_file (example_parent\<lparr>input_file := x\<rparr>) = x" for x
    by (simp_all add: example_parent_def)
  have w: "files ?w ''links.txt'' = Some (Text example_input_blank)"
    "files ?w ''missing.txt'' = None" "dirs ?w = {}"
    "warnings ?w = []" "progress_signal ?w = []" "history ?w = []" "finished_signal ?w = []"
    by (simp_all add: example_world_def)
  have d: "files example_dir_world ''links.txt'' = None" "dirs example_dir_world = {''links.txt''}"
    "warnings example_dir_world = []" "history example_dir_world = []"
    "finished_signal example_dir_world = []"
    by (simp_all add: example_dir_world_def example_world_def)
  have g1: "start_generation (example_env []) (example_parent\<lparr>input_file := []\<rparr>) ?w
      = ?w\<lparr>warnings := [''Please select input file'']\<rparr>"
    using start_generation_guards [of "example_parent\<lparr>input_file := []\<rparr>" "example_env []" ?w
        "[]"]
    by (simp add: p w)
  have g2: "start_generation (example_env []) (example_parent\<lparr>input_file := ''missing.txt''\<rparr>) ?w
      = ?w\<lparr>warnings := [''Input file does not exist'']\<rparr>"
    using start_generation_guards [of "example_parent\<lparr>input_file := ''missing.txt''\<rparr>"
        "example_env []" ?w "[]"]
    by (simp add: p w path_exists_def)
  have h3: "input_file example_parent \<noteq> [] \<and> path_exists ?w (input_file example_parent)"
    by (simp add: p w path_exists_def)
  have h4: "input_file example_parent \<noteq> []
        \<and> files ?w (input_file example_parent) = Some (Text example_input_blank)
        \<and> valid_utf8 example_input_blank \<and> links_of (readlines example_input_blank) = []
        \<and> makedirs_error (example_env []) (output_dir example_parent) = None
        \<and> open_read_error (example_env []) (input_file example_parent) = None
        \<and> open_write_error (example_env []) (formatted_file example_parent) = None"
    by (simp add: p w e example_valid example_links_blank)
  have h5: "input_file example_parent \<noteq> []
        \<and> files example_dir_world (input_file example_parent) = None
        \<and> input_file example_parent \<in> dirs example_dir_world
        \<and> makedirs_error (example_env []) (output_dir example_parent) = None"
    by (simp add: p d e)
  note t = start_generation_guards [of example_parent "example_env []" ?w example_input_blank]
  note u = start_generation_guards [of example_parent "example_env []" example_dir_world "[]"]
  have g3: "start_generation (example_env []) example_parent ?w
      = run (example_env []) example_parent ?w"
    using t h3 by blast
  have g4: "warnings (start_generation (example_env []) example_parent ?w) = warnings ?w
      \<and> progress_signal (start_generation (example_env []) example_parent ?w)
          = progress_signal ?w @ [0]
      \<and> history (start_generation (example_env []) example_parent ?w) = history ?w @
           [\<lparr>h_date = now (example_env []),
             h_template = get_template_name (selected_template example_parent)
               (custom_templates example_parent),
             h_count = 0, h_output_dir = output_dir example_parent\<rparr>]
      \<and> finished_signal (start_generation (example_env []) example_parent ?w) =
           finished_signal ?w @
             [(True, check_mark @ '' Generated 0 QR codes successfully!'' @ nl @ nl
                     @ folder_sign @ '' Path: '' @ output_dir example_parent)]"
    using t h4 by blast
  have g5: "warnings (start_generation (example_env []) example_parent example_dir_world)
        = warnings example_dir_world
      \<and> history (start_generation (example_env []) example_parent example_dir_world)
        = history example_dir_world
      \<and> finished_signal (start_generation (example_env []) example_parent example_dir_world) =
           finished_signal example_dir_world @
             [(False, cross_mark @ '' Failed to generate QR codes:'' @ nl
                      @ ''[Errno 21] Is a directory: '' @ [CHR 0x27]
                      @ input_file example_parent @ [CHR 0x27])]"
    using u h5 by blast
  show ?thesis
    using g1 g2 g3 g4 [unfolded w e p example_template_name] g5 [unfolded d p]
    by (simp add: example_links_blank)
qed

text \<open>
  Claim C4 as stated fails on an input file that exists and has no record, only blank
  lines and lines of whitespace: no warning is shown, the run reports the success of
  generating 0 codes, the history has a new record and \<open>formatted_links.txt\<close> is written.
\<close>

theorem blank_input_counterexample:
  "files (example_world example_input_blank) (input_file example_parent)
     = Some (Text example_input_blank)
   \<and> links_of (readlines example_input_blank) = []
   \<and> warnings (start_generation (example_env []) example_parent
        (example_world example_input_blank)) = []
   \<and> finished_signal (start_generation (example_env []) example_parent
        (example_world example_input_blank))
       = [(True, check_mark @ '' Generated 0 QR codes successfully!'' @ nl @ nl
                 @ folder_sign @ '' Path: qr_results'')]
   \<and> length (history (start_generation (example_env []) example_parent
        (example_world example_input_blank))) = 1
   \<and> files (start_generation (example_env []) example_parent
        (example_world example_input_blank))
        ''qr_results/formatted_links.txt'' = Some (Text [])"
proof -
  let ?w = "example_world example_input_blank"
  have e: "makedirs_error (example_env []) d = None"
    "open_read_error (example_env []) f = None"
    "open_write_error (example_env []) f = None" for d f
    by (simp_all add: example_env_def)
  have "run (example_env []) example_parent ?w =
     emit_finished True (success_message 0 (output_dir example_parent))
       (append_history example_parent (example_env [])
          (get_template_name (selected_template example_parent) (custom_templates example_parent)) 0
          (loop_start example_parent ?w))"
    using e example_read example_valid(3) example_links_blank
    by (intro run_no_records) simp_all
  moreover have "start_generation (example_env []) example_parent ?w
      = run (example_env []) example_parent ?w"
    by (simp add: start_generation_def path_exists_def example_parent_def example_world_def)
  ultimately have sg: "start_generation (example_env []) example_parent ?w =
     emit_finished True (success_message 0 (output_dir example_parent))
       (append_history example_parent (example_env [])
          (get_template_name (selected_template example_parent) (custom_templates example_parent)) 0
          (loop_start example_parent ?w))"
    by simp
  have dir: "output_dir example_parent = ''qr_results''" by (simp add: example_parent_def)
  have w: "warnings ?w = []" "finished_signal ?w = []" "history ?w = []"
    by (simp_all add: example_world_def)
  show ?thesis
    unfolding sg success_message_0
    using example_formatted_file example_read [of example_input_blank]
    by (simp add: example_links_blank dir w)
qed

subsection \<open>The progress values\<close>

lemma run_completed_progress:
  assumes "run_outcome env p w = (Completed n, w')"
  shows "progress_signal w' =
     progress_signal w @ 0 # map (\<lambda>i. progress_percent i n) [1 ..< Suc n]"
proof -
  from assms obtain raw w3 where n: "n = length (links_of raw)"
    and loop: "run_loop env p (links_of raw) w = (None, w3)"
    and w': "w' = emit_finished True (success_message n (output_dir p))
       (append_history p env (get_template_name (selected_template p) (custom_templates p)) n w3)"
    by (rule run_outcome_completed)
  have "progress_signal w3 = progress_signal (loop_start p w)
      @ map (\<lambda>i. progress_percent i (length (links_of raw))) [1 ..< 1 + length (links_of raw)]"
    using records_loop_completed [OF loop [unfolded run_loop_def]] .
  then show ?thesis by (simp add: w' n)
qed

lemma progress_values_sorted:
  assumes "1 \<le> n"
  shows "sorted (0 # map (\<lambda>i. progress_percent i n) [1 ..< Suc n])"
proof -
  have "sorted_wrt (\<lambda>i j. progress_percent i n \<le> progress_percent j n) [1 ..< Suc n]"
  proof (rule sorted_wrt_mono_rel [of _ "(<)"])
    show "sorted_wrt (<) [1 ..< Suc n]" by (rule sorted_wrt_upt)
    fix i j assume "i \<in> set [1 ..< Suc n]" "j \<in> set [1 ..< Suc n]" "i < j"
    then have "i \<le> j" "j \<le> n" "0 < n" using assms by auto
    then show "progress_percent i n \<le> progress_percent j n"
      by (rule progress_percent_mono)
  qed
  then have "sorted (map (\<lambda>i. progress_percent i n) [1 ..< Suc n])"
    by (simp only: sorted_map)
  moreover have "\<forall>v \<in> set (map (\<lambda>i. progress_percent i n) [1 ..< Suc n]). 0 \<le> v"
    using assms progress_percent_range [of _ n] by auto
  ultimately show ?thesis by simp
qed

lemma progress_values_last:
  assumes "1 \<le> n"
  shows "last (0 # map (\<lambda>i. progress_percent i n) [1 ..< Suc n]) = 100"
proof -
  have "[1 ..< Suc n] = [1 ..< n] @ [n]" using assms by simp
  then show ?thesis using assms by (simp add: progress_percent_final)
qed

text \<open>
  Claim C3, as the code has it. A run over \<open>n \<ge> 1\<close> records that completes emits the
  progress 0 and then, after the record \<open>i\<close>, the value \<^verbatim>\<open>int((i / n) * 100)\<close> of the
  binary64 arithmetic: the floor of the rounded product of the rounded quotient. For up
  to \<open>2 ^ 44\<close> records this is the exact \<open>\<lfloor>100 i / n\<rfloor>\<close> or one less. Every emitted
  value lies between 0 and 100, the sequence does not decrease, and its last value is 100.
\<close>

theorem progress_emitted:
  assumes "run_outcome env p w = (Completed n, w')" "1 \<le> n"
  shows "progress_signal w' =
       progress_signal w @ 0 # map (\<lambda>i. progress_percent i n) [1 ..< Suc n]
     \<and> (\<forall>i. 1 \<le> i \<and> i \<le> n \<longrightarrow>
           progress_percent i n = \<lfloor>fl (fl (of_nat i / of_nat n) * 100)\<rfloor>)
     \<and> (\<forall>i. 1 \<le> i \<and> i \<le> n \<and> n \<le> 2 ^ 44 \<longrightarrow>
           (100 * int i) div int n - 1 \<le> progress_percent i n
           \<and> progress_percent i n \<le> (100 * int i) div int n)
     \<and> (\<forall>v \<in> set (0 # map (\<lambda>i. progress_percent i n) [1 ..< Suc n]). 0 \<le> v \<and> v \<le> 100)
     \<and> sorted (0 # map (\<lambda>i. progress_percent i n) [1 ..< Suc n])
     \<and> last (0 # map (\<lambda>i. progress_percent i n) [1 ..< Suc n]) = 100"
proof -
  have n0: "0 < n" using assms(2) by simp
  have range: "\<forall>v \<in> set (0 # map (\<lambda>i. progress_percent i n) [1 ..< Suc n]). 0 \<le> v \<and> v \<le> 100"
    using n0 progress_percent_range [of _ n] by auto
  have floor: "\<forall>i. 1 \<le> i \<and> i \<le> n \<longrightarrow>
      progress_percent i n = \<lfloor>fl (fl (of_nat i / of_nat n) * 100)\<rfloor>"
    using n0 progress_percent_floor [of _ n] by blast
  have close: "\<forall>i. 1 \<le> i \<and> i \<le> n \<and> n \<le> 2 ^ 44 \<longrightarrow>
      (100 * int i) div int n - 1 \<le> progress_percent i n
      \<and> progress_percent i n \<le> (100 * int i) div int n"
    using progress_percent_close [of _ n] by blast
  show ?thesis
    using run_completed_progress [OF assms(1)] floor close range
      progress_values_sorted [OF assms(2)] progress_values_last [OF assms(2)]
    by blast
qed

lemma example_progress: "map (\<lambda>i. progress_percent i 3) [1, 2, 3] = [33, 66, 100]"
  by code_simp

theorem progress_emitted_witness:
  "progress_signal (run (example_env []) example_parent (example_world example_input))
     = [0, 33, 66, 100]
   \<and> (100 * int 2) div int 3 - 1 \<le> progress_percent 2 3
   \<and> progress_percent 2 3 \<le> (100 * int 2) div int 3
   \<and> sorted [0, 33, 66, 100 :: int]
   \<and> last [0, 33, 66, 100 :: int] = 100"
proof -
  have c: "run_outcome (example_env []) example_parent (example_world example_input)
      = (Completed 3, run (example_env []) example_parent (example_world example_input))"
    using run_example_completes [OF example_read example_valid(1)] by (simp add: example_links)
  have u: "[1 ..< Suc 3] = [1, 2, 3]" by (simp add: upt_rec)
  have "(1::nat) \<le> 3" by simp
  note t = progress_emitted [OF c this]
  have "(1::nat) \<le> 2 \<and> (2::nat) \<le> 3 \<and> (3::nat) \<le> 2 ^ 44" by simp
  then have close: "(100 * int 2) div int 3 - 1 \<le> progress_percent 2 3
      \<and> progress_percent 2 3 \<le> (100 * int 2) div int 3"
    using t by blast
  have m: "map (\<lambda>i. progress_percent i 3) [1 ..< Suc 3] = [33, 66, 100]"
    unfolding u by (rule example_progress)
  have ps: "progress_signal (example_world example_input) = []"
    by (simp add: example_world_def)
  have "progress_signal (run (example_env []) example_parent (example_world example_input))
      = progress_signal (example_world example_input)
          @ 0 # map (\<lambda>i. progress_percent i 3) [1 ..< Suc 3]"
    using t by blast
  then have "progress_signal (run (example_env []) example_parent (example_world example_input))
      = [0, 33, 66, 100]"
    unfolding m ps by simp
  then show ?thesis using close by simp
qed

lemma readlines_from_line:
  "CHR 0x0A \<notin> set l \<Longrightarrow>
   readlines_from cur (l @ CHR 0x0A # rest) = (cur @ l @ [CHR 0x0A]) # readlines_from [] rest"
  by (induction l arbitrary: cur) auto

lemma readlines_from_replicate:
  assumes "CHR 0x0A \<notin> set l"
  shows "readlines_from [] (concat (replicate k (l @ nl))) = replicate k (l @ nl)"
proof (induction k)
  case 0
  then show ?case by simp
next
  case (Suc k)
  have "readlines_from [] (concat (replicate (Suc k) (l @ nl)))
      = readlines_from [] (l @ CHR 0x0A # concat (replicate k (l @ nl)))"
    by (simp add: nl_def)
  also have "\<dots> = (l @ nl) # readlines_from [] (concat (replicate k (l @ nl)))"
    using readlines_from_line [OF assms, of "[]"] by (simp add: nl_def)
  finally show ?case using Suc by simp
qed

lemma readlines_replicate:
  assumes "CHR 0x0A \<notin> set l" "CHR 0x0D \<notin> set l"
  shows "readlines (concat (replicate k (l @ nl))) = replicate k (l @ nl)"
proof -
  have "CHR 0x0D \<notin> set (concat (replicate k (l @ nl)))"
    using assms(2) by (auto simp: nl_def)
  then have "universal_newlines (concat (replicate k (l @ nl))) = concat (replicate k (l @ nl))"
    by (rule universal_newlines_id)
  then show ?thesis
    unfolding readlines_def using readlines_from_replicate [OF assms(1), of k] by simp
qed

lemma example_valid_100: "valid_utf8 example_input_100"
proof (rule ascii_valid_utf8)
  have "set example_input_100 \<subseteq> set (''example.com'' @ nl)"
    by (auto simp: example_input_100_def)
  moreover have "\<forall>c \<in> set (''example.com'' @ nl). (of_char c :: nat) < 128"
    by (simp add: nl_def)
  ultimately show "\<forall>c \<in> set example_input_100. (of_char c :: nat) < 128" by blast
qed

lemma example_line: "strip (''example.com'' @ nl) = ''example.com''"
  by code_simp

lemma links_of_replicate:
  "strip l \<noteq> [] \<Longrightarrow> links_of (replicate k l) = replicate k (strip l)"
  by (induction k) (simp_all add: links_of_def)

lemma example_links_100: "length (links_of (readlines example_input_100)) = 100"
proof -
  have rl: "readlines example_input_100 = replicate 100 (''example.com'' @ nl)"
    unfolding example_input_100_def by (rule readlines_replicate) simp_all
  have ne: "strip (''example.com'' @ nl) \<noteq> []" unfolding example_line by simp
  show ?thesis unfolding rl links_of_replicate [OF ne] by (rule length_replicate)
qed

lemma progress_29_100: "progress_percent 29 100 = 28"
  by code_simp

text \<open>
  Claim C3 as stated fails on a job of 100 records: the value emitted after the record 29
  is 28, one less than \<open>\<lfloor>29 / 100 \<cdot> 100\<rfloor> = 29\<close>.
\<close>

theorem progress_not_exact_floor:
  "fst (run_outcome (example_env []) example_parent (example_world example_input_100))
     = Completed 100
   \<and> progress_signal (run (example_env []) example_parent (example_world example_input_100)) ! 29
       = 28
   \<and> \<lfloor>(29::rat) / 100 * 100\<rfloor> = 29"
proof -
  have c: "run_outcome (example_env []) example_parent (example_world example_input_100)
      = (Completed 100, run (example_env []) example_parent (example_world example_input_100))"
    using run_example_completes [OF example_read example_valid_100]
    by (simp add: example_links_100)
  have "progress_signal (run (example_env []) example_parent (example_world example_input_100))
      = 0 # map (\<lambda>i. progress_percent i 100) [1 ..< Suc 100]"
    using run_completed_progress [OF c] by (simp add: example_world_def)
  then have "progress_signal
      (run (example_env []) example_parent (example_world example_input_100)) ! 29
      = progress_percent 29 100"
    by simp
  then show ?thesis using c by (simp add: progress_29_100)
qed
section \<open>Properties of the gradient fill\<close>

lemma gradient_channel_start:
  assumes "0 \<le> c1" "c1 < 2 ^ 53"
  shows "gradient_channel c1 c2 0 = c1"
proof (cases "c1 = 0")
  case True
  then show ?thesis by (simp add: gradient_channel_def py_trunc_def)
next
  case False
  then have "fl (of_int c1) = of_int c1" using assms by (intro fl_of_int) simp_all
  then show ?thesis using assms by (simp add: gradient_channel_def py_trunc_def)
qed

lemma gradient_color_start:
  assumes "0 \<le> r" "r < 2 ^ 53" "0 \<le> g" "g < 2 ^ 53" "0 \<le> b" "b < 2 ^ 53"
  shows "gradient_color (r, g, b) color2 extent 0 = (r, g, b)"
  using assms by (cases color2) (simp add: gradient_color_def gradient_channel_start)

lemma below_one_exact: "fl (1 - 1 / 2 ^ 53) = 1 - 1 / 2 ^ 53"
proof -
  have "(1::rat) - 1 / 2 ^ 53 = of_int (2 ^ 53 - 1) / 2 ^ 53" by simp
  moreover have "ilog2 (1 - 1 / 2 ^ 53) = - 1"
    by (intro ilog2_unique) (simp_all add: power_int_minus_divide)
  ultimately have "(1 - 1 / 2 ^ 53) / 2 powi quantum_exp (1 - 1 / 2 ^ 53)
      = (of_int (2 ^ 53 - 1) :: rat)"
    by (simp add: quantum_exp_def power_int_minus_divide)
  then show ?thesis by (intro fl_exact) simp_all
qed

subsection \<open>Accumulated rounding error of one channel\<close>

lemma fl_abs_error:
  assumes "0 \<le> x" "x \<le> M" "x = 0 \<or> 2 powi (- 1022) \<le> x"
  shows "\<bar>fl x - x\<bar> \<le> M / 2 ^ 53"
proof (cases "x = 0")
  case True
  then show ?thesis using assms by simp
next
  case False
  then have low: "2 powi (- 1022) \<le> x" and x0: "0 < x" using assms by auto
  have "- 1022 \<le> ilog2 x" using low by (rule ilog2_ge)
  then have "\<bar>fl x - x\<bar> \<le> x / 2 ^ 53" using x0 by (intro fl_error)
  also have "\<dots> \<le> M / 2 ^ 53" using assms(2) by (simp add: divide_right_mono)
  finally show ?thesis .
qed

lemma fl_half:
  assumes "2 powi (- 1022) \<le> x"
  shows "x / 2 \<le> fl x"
proof -
  have x0: "0 < x" using assms quantum_pos [of "- 1022"] by linarith
  have "- 1022 \<le> ilog2 x" using assms by (rule ilog2_ge)
  then have "\<bar>fl x - x\<bar> \<le> x / 2 ^ 53" using x0 by (intro fl_error)
  moreover have "x / 2 ^ 53 \<le> x / 2" using x0 by simp
  ultimately show ?thesis by linarith
qed

lemma tiny_normal: "(2::rat) powi (- 1022) \<le> 1 / 2 ^ 60"
proof -
  have "(2::rat) powi (- 1022) \<le> 2 powi (- 60)" by (intro power_int_increasing) simp_all
  then show ?thesis by (simp add: power_int_minus_divide)
qed


lemma normal_low:
  assumes "1 / 2 ^ 60 \<le> (x::rat)"
  shows "2 powi (- 1022) \<le> x"
  using tiny_normal assms by (rule order_trans)

lemma ratio_le:
  assumes "i < n" "n \<le> 2 ^ 53"
  shows "fl (of_nat i / of_nat n) \<le> 1 - 1 / 2 ^ 53"
proof -
  have n0: "0 < n" using assms by simp
  have nr: "(of_nat n :: rat) \<le> 2 ^ 53"
    using assms(2) by (metis of_nat_le_iff of_nat_numeral of_nat_power)
  have "Suc i \<le> n" using assms(1) by simp
  then have "(of_nat (Suc i) :: rat) \<le> of_nat n" by (simp only: of_nat_le_iff)
  then have "(of_nat i :: rat) + 1 \<le> of_nat n" by simp
  then have "(of_nat i / of_nat n :: rat) \<le> 1 - 1 / of_nat n"
    using n0 by (simp add: field_simps)
  also have "\<dots> \<le> 1 - 1 / 2 ^ 53" using nr n0 by (simp add: field_simps)
  finally have "fl (of_nat i / of_nat n) \<le> fl (1 - 1 / 2 ^ 53)"
    by (intro fl_mono) simp_all
  then show ?thesis unfolding below_one_exact .
qed

lemma abs_scaled:
  assumes "0 \<le> A" "A \<le> (255::rat)"
  shows "\<bar>A * z\<bar> \<le> 255 * \<bar>z\<bar>"
proof -
  have "\<bar>A * z\<bar> = A * \<bar>z\<bar>" using assms(1) by (simp add: abs_mult)
  also have "\<dots> \<le> 255 * \<bar>z\<bar>" using assms(2) by (intro mult_right_mono) simp_all
  finally show ?thesis .
qed

lemma fl_of_int_byte:
  assumes "0 \<le> a" "a \<le> 255"
  shows "fl (of_int a) = of_int a"
proof (cases "a = 0")
  case True
  then show ?thesis by simp
next
  case False
  then show ?thesis using assms by (intro fl_of_int) simp_all
qed

lemma fl_product_byte:
  assumes "0 \<le> A" "A \<le> 255" "A = 0 \<or> 1 \<le> A" "0 \<le> s" "s \<le> 1" "s = 0 \<or> 1 / 2 ^ 58 \<le> s"
  shows "\<bar>fl (A * s) - A * s\<bar> \<le> 255 / 2 ^ 53"
    and "0 \<le> fl (A * s)"
    and "fl (A * s) \<le> 255"
    and "fl (A * s) = 0 \<or> 1 / 2 ^ 59 \<le> fl (A * s)"
proof -
  have x0: "0 \<le> A * s" using assms by simp
  have "A * s \<le> 255 * 1" using assms by (intro mult_mono) simp_all
  then have x1: "A * s \<le> 255" by simp
  have low: "A * s = 0 \<or> 1 / 2 ^ 58 \<le> A * s"
  proof (cases "A = 0 \<or> s = 0")
    case True
    then show ?thesis by auto
  next
    case False
    then have "1 \<le> A" "1 / 2 ^ 58 \<le> s" using assms by auto
    then have "1 * (1 / 2 ^ 58) \<le> A * s" by (intro mult_mono) simp_all
    then show ?thesis by simp
  qed
  have step: "(1::rat) / 2 ^ 60 \<le> 1 / 2 ^ 58" by simp
  have norm: "A * s = 0 \<or> 2 powi (- 1022) \<le> A * s"
    using low order_trans [OF step, THEN normal_low] by blast
  show "\<bar>fl (A * s) - A * s\<bar> \<le> 255 / 2 ^ 53"
    using x0 x1 norm by (rule fl_abs_error)
  show "0 \<le> fl (A * s)" using x0 by (rule fl_nonneg)
  have "fl (A * s) \<le> fl 255" using x0 x1 by (rule fl_mono)
  moreover have "fl 255 = 255" using fl_of_int [of 255] by simp
  ultimately show "fl (A * s) \<le> 255" by simp
  show "fl (A * s) = 0 \<or> 1 / 2 ^ 59 \<le> fl (A * s)"
  proof (cases "A * s = 0")
    case True
    show ?thesis unfolding True by simp
  next
    case False
    then have l: "1 / 2 ^ 58 \<le> A * s" using low by blast
    then have "2 powi (- 1022) \<le> A * s" using norm False by blast
    then have "A * s / 2 \<le> fl (A * s)" by (rule fl_half)
    then show ?thesis using l by simp
  qed
qed


lemma gradient_channel_float:
  "gradient_channel a b (fl (of_nat i / of_nat n)) = py_trunc (float_channel a b i n)"
  by (simp add: gradient_channel_def float_channel_def)

lemma float_channel_error:
  assumes "0 \<le> a" "a \<le> 255" "0 \<le> b" "b \<le> 255" "i < n" "n \<le> 2 ^ 40"
  shows "\<bar>float_channel a b i n - exact_channel a b i n\<bar> \<le> 2000 / 2 ^ 53"
    and "0 \<le> float_channel a b i n"
proof -
  define u :: rat where "u = 1 / 2 ^ 53"
  define t :: rat where "t = of_nat i / of_nat n"
  define t' where "t' = fl t"
  define d where "d = 1 - t'"
  define s' where "s' = fl d"
  define A :: rat where "A = of_int a"
  define B :: rat where "B = of_int b"
  define p1 where "p1 = fl (A * s')"
  define p2 where "p2 = fl (B * t')"
  define c where "c = fl (p1 + p2)"
  have n0: "0 < n" using assms by simp
  have nr: "(of_nat n :: rat) \<le> 2 ^ 40"
    using assms(6) by (metis of_nat_le_iff of_nat_numeral of_nat_power)
  have n53: "n \<le> 2 ^ 53"
  proof -
    have "(2::nat) ^ 40 \<le> 2 ^ 53" by (intro power_increasing) simp_all
    then show ?thesis using assms(6) by (rule order_trans [rotated])
  qed
  have t0: "0 \<le> t" and t1: "t \<le> 1" using assms(5) by (simp_all add: t_def)
  have tlow: "t = 0 \<or> 1 / 2 ^ 40 \<le> t"
  proof (cases "i = 0")
    case True
    then show ?thesis by (simp add: t_def)
  next
    case False
    then have "1 / of_nat n \<le> t" using n0 by (simp add: t_def divide_right_mono)
    moreover have "(1::rat) / 2 ^ 40 \<le> 1 / of_nat n" using nr n0 by (simp add: field_simps)
    ultimately show ?thesis by linarith
  qed
  have s40: "(1::rat) / 2 ^ 60 \<le> 1 / 2 ^ 40" by simp
  have tn: "t = 0 \<or> 2 powi (- 1022) \<le> t"
    using tlow order_trans [OF s40, THEN normal_low] by blast
  have et: "\<bar>t' - t\<bar> \<le> u" unfolding t'_def u_def using t0 t1 tn by (rule fl_abs_error)
  have t'0: "0 \<le> t'" unfolding t'_def using t0 by (rule fl_nonneg)
  have t'1: "t' \<le> 1 - u" unfolding t'_def t_def u_def using assms(5) n53 by (rule ratio_le)
  have t'low: "t' = 0 \<or> 1 / 2 ^ 58 \<le> t'"
  proof (cases "t = 0")
    case True
    then show ?thesis by (simp add: t'_def)
  next
    case False
    then have l: "1 / 2 ^ 40 \<le> t" using tlow by blast
    then have "2 powi (- 1022) \<le> t" using tn False by blast
    then have h: "t / 2 \<le> t'" unfolding t'_def by (rule fl_half)
    have "(1::rat) / 2 ^ 58 \<le> (1 / 2 ^ 40) / 2" by simp
    also have "\<dots> \<le> t / 2" using l by (rule divide_right_mono) simp
    also note h
    finally show ?thesis by simp
  qed
  have d0: "u \<le> d" and d1: "d \<le> 1" using t'0 t'1 by (simp_all add: d_def)
  have upos: "0 < u" by (simp add: u_def)
  have s53: "(1::rat) / 2 ^ 60 \<le> 1 / 2 ^ 53" by simp
  have dn: "2 powi (- 1022) \<le> d"
    using d0 order_trans [OF s53, THEN normal_low] unfolding u_def by blast
  have es: "\<bar>s' - d\<bar> \<le> u"
    unfolding s'_def u_def using d0 d1 dn upos by (intro fl_abs_error) simp_all
  have s'0: "0 \<le> s'" unfolding s'_def using d0 upos by (intro fl_nonneg) simp
  have "fl d \<le> fl 1" using d0 d1 upos by (intro fl_mono) simp_all
  then have s'1: "s' \<le> 1" by (simp add: s'_def)
  have hs: "d / 2 \<le> s'" unfolding s'_def using dn by (rule fl_half)
  have "(1::rat) / 2 ^ 58 \<le> u / 2" by (simp add: u_def)
  also have "\<dots> \<le> d / 2" using d0 by (rule divide_right_mono) simp
  also note hs
  finally have s'low: "s' = 0 \<or> 1 / 2 ^ 58 \<le> s'" by simp
  have A: "0 \<le> A" "A \<le> 255" "A = 0 \<or> 1 \<le> A"
    using assms(1,2) by (auto simp: A_def)
  have B: "0 \<le> B" "B \<le> 255" "B = 0 \<or> 1 \<le> B"
    using assms(3,4) by (auto simp: B_def)
  note P1 = fl_product_byte [OF A s'0 s'1 s'low, folded p1_def]
  have t'le: "t' \<le> 1" using t'1 upos by simp
  note P2 = fl_product_byte [OF B t'0 t'le t'low, folded p2_def]
  have x0: "0 \<le> p1 + p2" and x1: "p1 + p2 \<le> 510" using P1(2,3) P2(2,3) by simp_all
  have s59: "(1::rat) / 2 ^ 60 \<le> 1 / 2 ^ 59" by simp
  have xlow: "p1 + p2 = 0 \<or> 1 / 2 ^ 59 \<le> p1 + p2"
    using P1(2,4) P2(2,4) by linarith
  have xn: "p1 + p2 = 0 \<or> 2 powi (- 1022) \<le> p1 + p2"
    using xlow order_trans [OF s59, THEN normal_low] by blast
  have ec: "\<bar>c - (p1 + p2)\<bar> \<le> 510 / 2 ^ 53"
    unfolding c_def using x0 x1 xn by (rule fl_abs_error)
  have eA: "\<bar>A * ((s' - d) - (t' - t))\<bar> \<le> 255 * \<bar>(s' - d) - (t' - t)\<bar>"
    using A(1,2) by (rule abs_scaled)
  have eB: "\<bar>B * (t' - t)\<bar> \<le> 255 * \<bar>t' - t\<bar>"
    using B(1,2) by (rule abs_scaled)
  have two: "\<bar>(s' - d) - (t' - t)\<bar> \<le> 2 * u" using es et by linarith
  have split: "c - (A * (1 - t) + B * t)
      = (c - (p1 + p2)) + (p1 - A * s') + (p2 - B * t')
        + A * ((s' - d) - (t' - t)) + B * (t' - t)"
    by (simp add: d_def algebra_simps)
  define e1 where "e1 = c - (p1 + p2)"
  define e2 where "e2 = p1 - A * s'"
  define e3 where "e3 = p2 - B * t'"
  define e4 where "e4 = A * ((s' - d) - (t' - t))"
  define e5 where "e5 = B * (t' - t)"
  have b1: "\<bar>e1\<bar> \<le> 510 * u" using ec by (simp add: e1_def u_def)
  have b2: "\<bar>e2\<bar> \<le> 255 * u" using P1(1) by (simp add: e2_def u_def)
  have b3: "\<bar>e3\<bar> \<le> 255 * u" using P2(1) by (simp add: e3_def u_def)
  have "255 * \<bar>(s' - d) - (t' - t)\<bar> \<le> 255 * (2 * u)"
    using two by (intro mult_left_mono) simp_all
  then have "\<bar>A * ((s' - d) - (t' - t))\<bar> \<le> 255 * (2 * u)"
    using eA by (rule order_trans [rotated])
  then have b4: "\<bar>e4\<bar> \<le> 510 * u" by (simp add: e4_def)
  have "255 * \<bar>t' - t\<bar> \<le> 255 * u" using et by (intro mult_left_mono) simp_all
  then have "\<bar>B * (t' - t)\<bar> \<le> 255 * u" using eB by (rule order_trans [rotated])
  then have b5: "\<bar>e5\<bar> \<le> 255 * u" by (simp add: e5_def)
  have tri: "\<bar>e1 + e2 + e3 + e4 + e5\<bar> \<le> \<bar>e1\<bar> + \<bar>e2\<bar> + \<bar>e3\<bar> + \<bar>e4\<bar> + \<bar>e5\<bar>"
    by linarith
  have "\<bar>c - (A * (1 - t) + B * t)\<bar> = \<bar>e1 + e2 + e3 + e4 + e5\<bar>"
    unfolding split e1_def e2_def e3_def e4_def e5_def by simp
  also have "\<dots> \<le> 2000 * u" using tri b1 b2 b3 b4 b5 upos by linarith
  also have "\<dots> = 2000 / 2 ^ 53" by (simp add: u_def)
  finally have "\<bar>c - (A * (1 - t) + B * t)\<bar> \<le> 2000 / 2 ^ 53" .
  moreover have fa: "fl (of_int a) = A" unfolding A_def using assms(1,2) by (rule fl_of_int_byte)
  moreover have fb: "fl (of_int b) = B" unfolding B_def using assms(3,4) by (rule fl_of_int_byte)
  ultimately show "\<bar>float_channel a b i n - exact_channel a b i n\<bar> \<le> 2000 / 2 ^ 53"
    by (simp add: float_channel_def exact_channel_def c_def p1_def p2_def s'_def d_def t'_def
        t_def A_def B_def)
  have "0 \<le> c" unfolding c_def using x0 by (rule fl_nonneg)
  then show "0 \<le> float_channel a b i n"
    using fa fb
    by (simp add: float_channel_def c_def p1_def p2_def s'_def d_def t'_def t_def A_def B_def)
qed


lemma py_trunc_mono: "x \<le> y \<Longrightarrow> py_trunc x \<le> py_trunc y"
proof -
  assume xy: "x \<le> y"
  consider "0 \<le> x" | "x < 0" "0 \<le> y" | "y < 0" by linarith
  then show ?thesis
  proof cases
    case 1
    then show ?thesis using xy by (simp add: py_trunc_def floor_mono)
  next
    case 2
    have "\<lceil>x\<rceil> \<le> 0" using 2 by (simp add: ceiling_le_iff)
    moreover have "0 \<le> \<lfloor>y\<rfloor>" using 2 by simp
    moreover have "py_trunc x = \<lceil>x\<rceil>" "py_trunc y = \<lfloor>y\<rfloor>"
      using 2 by (simp_all add: py_trunc_def)
    ultimately show ?thesis by linarith
  next
    case 3
    then show ?thesis using xy by (simp add: py_trunc_def ceiling_mono)
  qed
qed

lemma exact_channel_alt:
  "exact_channel a b i n = of_int a + of_int (b - a) * (of_nat i / of_nat n)"
proof -
  define t :: rat where "t = of_nat i / of_nat n"
  have "of_int a * (1 - t) + of_int b * t = of_int a + of_int (b - a) * t"
    by (simp add: algebra_simps)
  then show ?thesis by (simp add: exact_channel_def t_def)
qed

lemma scaled_step:
  assumes "(1::rat) \<le> D" "0 \<le> w" "ti + w \<le> tj"
  shows "D * ti + w \<le> D * tj"
proof -
  have "1 * w \<le> D * w" using assms(1,2) by (intro mult_right_mono) simp_all
  then have "D * ti + w \<le> D * (ti + w)" by (simp add: algebra_simps)
  also have "\<dots> \<le> D * tj" using assms(1,3) by (intro mult_left_mono) simp_all
  finally show ?thesis .
qed

lemma ratio_step:
  assumes "i < j" "0 < n"
  shows "of_nat i / of_nat n + 1 / of_nat n \<le> (of_nat j :: rat) / of_nat n"
proof -
  have "Suc i \<le> j" using assms(1) by simp
  then have "(of_nat (Suc i) :: rat) \<le> of_nat j" by (simp only: of_nat_le_iff)
  then have "(of_nat i + 1) / of_nat n \<le> (of_nat j :: rat) / of_nat n"
    using assms(2) by (simp add: divide_right_mono)
  then show ?thesis by (simp add: add_divide_distrib)
qed

lemma exact_channel_step:
  assumes "a < b" "i < j" "0 < n"
  shows "exact_channel a b i n + 1 / of_nat n \<le> exact_channel a b j n"
proof -
  have "1 \<le> b - a" using assms(1) by simp
  then have d: "(1::rat) \<le> of_int (b - a)" by (simp only: of_int_1_le_iff)
  have "of_int (b - a) * (of_nat i / of_nat n) + 1 / of_nat n
      \<le> of_int (b - a) * (of_nat j / of_nat n :: rat)"
    using d _ ratio_step [OF assms(2,3)] by (rule scaled_step) simp
  then show ?thesis unfolding exact_channel_alt by simp
qed

lemma float_channel_step:
  assumes "0 \<le> a" "a < b" "b \<le> 255" "i < j" "j < n" "n \<le> 2 ^ 40"
  shows "float_channel a b i n \<le> float_channel a b j n"
proof -
  have n0: "0 < n" using assms by simp
  have nr: "(of_nat n :: rat) \<le> 2 ^ 40"
    using assms(6) by (metis of_nat_le_iff of_nat_numeral of_nat_power)
  have gap: "(1::rat) / 2 ^ 40 \<le> 1 / of_nat n" using nr n0 by (simp add: field_simps)
  have ei: "\<bar>float_channel a b i n - exact_channel a b i n\<bar> \<le> 2000 / 2 ^ 53"
    using assms by (intro float_channel_error) simp_all
  have ej: "\<bar>float_channel a b j n - exact_channel a b j n\<bar> \<le> 2000 / 2 ^ 53"
    using assms by (intro float_channel_error) simp_all
  have st: "exact_channel a b i n + 1 / of_nat n \<le> exact_channel a b j n"
    using assms(2,4) n0 by (rule exact_channel_step)
  have c: "(2000::rat) / 2 ^ 53 + 2000 / 2 ^ 53 \<le> 1 / 2 ^ 40" by simp
  define e :: rat where "e = 2000 / 2 ^ 53"
  define g :: rat where "g = 1 / 2 ^ 40"
  have "e + e \<le> g" using c by (simp add: e_def g_def)
  moreover have "g \<le> 1 / of_nat n" using gap by (simp add: g_def)
  moreover have "\<bar>float_channel a b i n - exact_channel a b i n\<bar> \<le> e" using ei by (simp add: e_def)
  moreover have "\<bar>float_channel a b j n - exact_channel a b j n\<bar> \<le> e" using ej by (simp add: e_def)
  ultimately show ?thesis using st by linarith
qed

lemma gradient_channel_increasing:
  assumes "0 \<le> a" "a < b" "b \<le> 255" "i \<le> j" "j < n" "n \<le> 2 ^ 40"
  shows "gradient_channel a b (fl (of_nat i / of_nat n))
     \<le> gradient_channel a b (fl (of_nat j / of_nat n))"
proof (cases "i = j")
  case True
  then show ?thesis by simp
next
  case False
  then have "i < j" using assms(4) by simp
  then have "float_channel a b i n \<le> float_channel a b j n"
    using assms by (intro float_channel_step) simp_all
  then show ?thesis unfolding gradient_channel_float by (rule py_trunc_mono)
qed

text \<open>Exchanging the colours mirrors the exact value, not the float: the other direction
  is proved in the same way.\<close>

lemma exact_channel_step_down:
  assumes "b < a" "i < j" "0 < n"
  shows "exact_channel a b j n + 1 / of_nat n \<le> exact_channel a b i n"
proof -
  have "1 \<le> a - b" using assms(1) by simp
  then have d: "(1::rat) \<le> of_int (a - b)" by (simp only: of_int_1_le_iff)
  have st: "of_int (a - b) * (of_nat i / of_nat n) + 1 / of_nat n
      \<le> of_int (a - b) * (of_nat j / of_nat n :: rat)"
    using d _ ratio_step [OF assms(2,3)] by (rule scaled_step) simp
  have neg: "of_int (b - a) * t = - (of_int (a - b) * t)" for t :: rat
    by (simp add: algebra_simps)
  show ?thesis unfolding exact_channel_alt neg using st by linarith
qed

lemma gradient_channel_decreasing:
  assumes "0 \<le> b" "b < a" "a \<le> 255" "i \<le> j" "j < n" "n \<le> 2 ^ 40"
  shows "gradient_channel a b (fl (of_nat j / of_nat n))
     \<le> gradient_channel a b (fl (of_nat i / of_nat n))"
proof (cases "i = j")
  case True
  then show ?thesis by simp
next
  case False
  then have ij: "i < j" using assms(4) by simp
  have n0: "0 < n" using assms by simp
  have nr: "(of_nat n :: rat) \<le> 2 ^ 40"
    using assms(6) by (metis of_nat_le_iff of_nat_numeral of_nat_power)
  have gap: "(1::rat) / 2 ^ 40 \<le> 1 / of_nat n" using nr n0 by (simp add: field_simps)
  have ei: "\<bar>float_channel a b i n - exact_channel a b i n\<bar> \<le> 2000 / 2 ^ 53"
    using assms ij by (intro float_channel_error) simp_all
  have ej: "\<bar>float_channel a b j n - exact_channel a b j n\<bar> \<le> 2000 / 2 ^ 53"
    using assms by (intro float_channel_error) simp_all
  have st: "exact_channel a b j n + 1 / of_nat n \<le> exact_channel a b i n"
    using assms(2) ij n0 by (rule exact_channel_step_down)
  have c: "(2000::rat) / 2 ^ 53 + 2000 / 2 ^ 53 \<le> 1 / 2 ^ 40" by simp
  define e :: rat where "e = 2000 / 2 ^ 53"
  define g :: rat where "g = 1 / 2 ^ 40"
  have "e + e \<le> g" using c by (simp add: e_def g_def)
  moreover have "g \<le> 1 / of_nat n" using gap by (simp add: g_def)
  moreover have "\<bar>float_channel a b i n - exact_channel a b i n\<bar> \<le> e" using ei by (simp add: e_def)
  moreover have "\<bar>float_channel a b j n - exact_channel a b j n\<bar> \<le> e" using ej by (simp add: e_def)
  ultimately have "float_channel a b j n \<le> float_channel a b i n" using st by linarith
  then show ?thesis unfolding gradient_channel_float by (rule py_trunc_mono)
qed

lemma gradient_channel_equal:
  assumes "0 \<le> a" "a \<le> 255" "i < n" "n \<le> 2 ^ 40"
  shows "a - 1 \<le> gradient_channel a a (fl (of_nat i / of_nat n))
     \<and> gradient_channel a a (fl (of_nat i / of_nat n)) \<le> a"
proof -
  have n0: "0 < n" using assms by simp
  have v: "exact_channel a a i n = of_int a" by (simp add: exact_channel_alt)
  have e: "\<bar>float_channel a a i n - of_int a\<bar> \<le> 2000 / 2 ^ 53"
    using float_channel_error(1) [OF assms(1,2) assms(1,2) assms(3,4)] unfolding v .
  have c0: "0 \<le> float_channel a a i n"
    using float_channel_error(2) [OF assms(1,2) assms(1,2) assms(3,4)] .
  define e0 :: rat where "e0 = 2000 / 2 ^ 53"
  have small: "e0 < 1" by (simp add: e0_def)
  have e': "\<bar>float_channel a a i n - of_int a\<bar> \<le> e0" using e by (simp add: e0_def)
  have "of_int a - 1 \<le> float_channel a a i n" using e' small by linarith
  then have lo: "of_int (a - 1) \<le> float_channel a a i n" by simp
  have "float_channel a a i n < of_int a + 1" using e' small by linarith
  then have hi: "float_channel a a i n < of_int (a + 1)" by simp
  have "a - 1 \<le> \<lfloor>float_channel a a i n\<rfloor>" using lo by (simp only: le_floor_iff)
  moreover have "\<lfloor>float_channel a a i n\<rfloor> < a + 1" using hi by (simp only: floor_less_iff)
  ultimately show ?thesis
    unfolding gradient_channel_float using c0 by (simp add: py_trunc_def)
qed

lemma ratio_below_one:
  assumes "i < n" "n \<le> 2 ^ 53"
  shows "fl (of_nat i / of_nat n) < 1"
  using ratio_le [OF assms] by simp

lemma nth_create_gradient:
  "i < gradient_extent width height direction \<Longrightarrow>
   create_gradient width height color1 color2 direction ! i
     = gradient_color color1 color2 (gradient_extent width height direction) i"
  by (simp add: create_gradient_def)

lemma channels_nth_gradient:
  assumes "k < 3" "i < gradient_extent width height direction"
  shows "channels (create_gradient width height color1 color2 direction ! i) ! k
     = gradient_channel (channels color1 ! k) (channels color2 ! k)
         (fl (of_nat i / of_nat (gradient_extent width height direction)))"
proof -
  obtain r1 g1 b1 r2 g2 b2 where c: "color1 = (r1, g1, b1)" "color2 = (r2, g2, b2)"
    by (cases color1, cases color2) auto
  have "k = 0 \<or> k = 1 \<or> k = 2" using assms(1) by auto
  then show ?thesis
    unfolding nth_create_gradient [OF assms(2)] c
    by (auto simp: gradient_color_def channels_def Let_def)
qed

lemma byte_channels:
  assumes "0 \<le> r \<and> r \<le> 255" "0 \<le> g \<and> g \<le> 255" "0 \<le> b \<and> b \<le> (255::int)" "k < 3"
  shows "0 \<le> channels (r, g, b) ! k \<and> channels (r, g, b) ! k \<le> 255"
proof -
  have "k = 0 \<or> k = 1 \<or> k = 2" using assms(4) by auto
  then show ?thesis using assms(1-3) by (auto simp: channels_def)
qed

text \<open>
  Claim C5, as the code has it. For a width and a height of at least 1 and two colours
  with channels from 0 to 255 the fill has one scanline colour for each position
  \<open>0, \<dots>, extent - 1\<close> of the chosen axis. The channel at position \<open>i\<close> is the
  truncation \<^verbatim>\<open>int(A * (1 - ratio) + B * ratio)\<close> of the binary64 value, with
  \<open>ratio = i / extent\<close>. Position 0 has the first colour exactly. The ratio of every
  scanline is below 1, the last one has \<open>(extent - 1) / extent\<close>: no scanline is computed
  at ratio 1. For an extent of at most \<open>2 ^ 40\<close>, a channel in which the colours differ
  is monotonic along the axis, from the first colour towards the second; a channel in
  which they are equal keeps that value or is one below it.
\<close>

theorem create_gradient_scanlines:
  assumes "1 \<le> width" "1 \<le> height"
    "0 \<le> r1 \<and> r1 \<le> 255" "0 \<le> g1 \<and> g1 \<le> 255" "0 \<le> b1 \<and> b1 \<le> 255"
    "0 \<le> r2 \<and> r2 \<le> 255" "0 \<le> g2 \<and> g2 \<le> 255" "0 \<le> b2 \<and> b2 \<le> 255"
    "extent = gradient_extent width height direction"
    "fill = create_gradient width height (r1, g1, b1) (r2, g2, b2) direction"
  shows "length fill = extent
     \<and> (\<forall>i. i < extent \<longrightarrow>
          fill ! i
            = (py_trunc (fl (fl (fl (of_int r1) * fl (1 - fl (of_nat i / of_nat extent)))
                  + fl (fl (of_int r2) * fl (of_nat i / of_nat extent)))),
               py_trunc (fl (fl (fl (of_int g1) * fl (1 - fl (of_nat i / of_nat extent)))
                  + fl (fl (of_int g2) * fl (of_nat i / of_nat extent)))),
               py_trunc (fl (fl (fl (of_int b1) * fl (1 - fl (of_nat i / of_nat extent)))
                  + fl (fl (of_int b2) * fl (of_nat i / of_nat extent))))))
     \<and> fill ! 0 = (r1, g1, b1)
     \<and> (\<forall>i. i < extent \<and> extent \<le> 2 ^ 53 \<longrightarrow> fl (of_nat i / of_nat extent) < 1)
     \<and> (\<forall>k i j. k < 3 \<and> i \<le> j \<and> j < extent \<and> extent \<le> 2 ^ 40 \<longrightarrow>
          (channels (r1, g1, b1) ! k < channels (r2, g2, b2) ! k
             \<longrightarrow> channels (fill ! i) ! k \<le> channels (fill ! j) ! k)
          \<and> (channels (r2, g2, b2) ! k < channels (r1, g1, b1) ! k
             \<longrightarrow> channels (fill ! j) ! k \<le> channels (fill ! i) ! k)
          \<and> (channels (r1, g1, b1) ! k = channels (r2, g2, b2) ! k
             \<longrightarrow> channels (r1, g1, b1) ! k - 1 \<le> channels (fill ! i) ! k
                 \<and> channels (fill ! i) ! k \<le> channels (r1, g1, b1) ! k))"
proof -
  let ?A = "(r1, g1, b1)" and ?B = "(r2, g2, b2)"
  have e: "0 < extent" using assms(1,2,9) by (simp add: gradient_extent_def)
  have len: "length fill = extent"
    by (simp add: create_gradient_def assms(9,10))
  have nth: "fill ! i = gradient_color ?A ?B extent i" if "i < extent" for i
    using that by (simp add: create_gradient_def assms(9,10))
  have first: "gradient_color ?A ?B extent 0 = ?A"
    using assms(3-5) by (intro gradient_color_start) simp_all
  have formula: "fill ! i
      = (py_trunc (fl (fl (fl (of_int r1) * fl (1 - fl (of_nat i / of_nat extent)))
            + fl (fl (of_int r2) * fl (of_nat i / of_nat extent)))),
         py_trunc (fl (fl (fl (of_int g1) * fl (1 - fl (of_nat i / of_nat extent)))
            + fl (fl (of_int g2) * fl (of_nat i / of_nat extent)))),
         py_trunc (fl (fl (fl (of_int b1) * fl (1 - fl (of_nat i / of_nat extent)))
            + fl (fl (of_int b2) * fl (of_nat i / of_nat extent)))))" if "i < extent" for i
    unfolding nth [OF that] by (simp add: gradient_color_def gradient_channel_def Let_def)
  have start: "fill ! 0 = ?A"
    unfolding nth [OF e] by (rule first)
  have below: "fl (of_nat i / of_nat extent) < 1" if "i < extent \<and> extent \<le> 2 ^ 53" for i
    using that by (intro ratio_below_one) simp_all
  have shape: "(channels ?A ! k < channels ?B ! k
             \<longrightarrow> channels (fill ! i) ! k \<le> channels (fill ! j) ! k)
          \<and> (channels ?B ! k < channels ?A ! k
             \<longrightarrow> channels (fill ! j) ! k \<le> channels (fill ! i) ! k)
          \<and> (channels ?A ! k = channels ?B ! k
             \<longrightarrow> channels ?A ! k - 1 \<le> channels (fill ! i) ! k
                 \<and> channels (fill ! i) ! k \<le> channels ?A ! k)"
    if h: "k < 3 \<and> i \<le> j \<and> j < extent \<and> extent \<le> 2 ^ 40" for k i j
  proof -
    define a where "a = channels ?A ! k"
    define b where "b = channels ?B ! k"
    have a: "0 \<le> a \<and> a \<le> 255" unfolding a_def using assms(3-5) h by (intro byte_channels) simp_all
    have b: "0 \<le> b \<and> b \<le> 255" unfolding b_def using assms(6-8) h by (intro byte_channels) simp_all
    have i: "i < extent" and j: "j < extent" using h by simp_all
    have ci: "channels (fill ! i) ! k = gradient_channel a b (fl (of_nat i / of_nat extent))"
      unfolding a_def b_def assms(9,10) using h i
      by (intro channels_nth_gradient) (simp_all add: assms(9))
    have cj: "channels (fill ! j) ! k = gradient_channel a b (fl (of_nat j / of_nat extent))"
      unfolding a_def b_def assms(9,10) using h j
      by (intro channels_nth_gradient) (simp_all add: assms(9))
    have up: "gradient_channel a b (fl (of_nat i / of_nat extent))
        \<le> gradient_channel a b (fl (of_nat j / of_nat extent))" if "a < b"
      using a b h that by (intro gradient_channel_increasing) simp_all
    have down: "gradient_channel a b (fl (of_nat j / of_nat extent))
        \<le> gradient_channel a b (fl (of_nat i / of_nat extent))" if "b < a"
      using a b h that by (intro gradient_channel_decreasing) simp_all
    have same: "a - 1 \<le> gradient_channel a a (fl (of_nat i / of_nat extent))
        \<and> gradient_channel a a (fl (of_nat i / of_nat extent)) \<le> a"
      using a h i by (intro gradient_channel_equal) simp_all
    show ?thesis
      unfolding ci cj a_def [symmetric] b_def [symmetric] using up down same by auto
  qed
  show ?thesis using len formula start below shape by blast
qed

theorem create_gradient_scanlines_witness:
  "length (create_gradient 3 4 (10, 20, 30) (200, 10, 30) ''vertical'') = 4
   \<and> create_gradient 3 4 (10, 20, 30) (200, 10, 30) ''vertical'' ! 0 = (10, 20, 30)
   \<and> fl (of_nat 3 / of_nat 4) < 1
   \<and> channels (create_gradient 3 4 (10, 20, 30) (200, 10, 30) ''vertical'' ! 1) ! 0
       \<le> channels (create_gradient 3 4 (10, 20, 30) (200, 10, 30) ''vertical'' ! 3) ! 0
   \<and> channels (create_gradient 3 4 (10, 20, 30) (200, 10, 30) ''vertical'' ! 3) ! 1
       \<le> channels (create_gradient 3 4 (10, 20, 30) (200, 10, 30) ''vertical'' ! 1) ! 1
   \<and> 29 \<le> channels (create_gradient 3 4 (10, 20, 30) (200, 10, 30) ''vertical'' ! 1) ! 2
   \<and> channels (create_gradient 3 4 (10, 20, 30) (200, 10, 30) ''vertical'' ! 1) ! 2 \<le> 30"
proof -
  let ?fill = "create_gradient 3 4 (10, 20, 30) (200, 10, 30) ''vertical''"
  have e: "4 = gradient_extent 3 4 ''vertical''" by (simp add: gradient_extent_def)
  have "(1::nat) \<le> 3" "(1::nat) \<le> 4" "(0::int) \<le> 10 \<and> (10::int) \<le> 255"
    "(0::int) \<le> 20 \<and> (20::int) \<le> 255" "(0::int) \<le> 30 \<and> (30::int) \<le> 255"
    "(0::int) \<le> 200 \<and> (200::int) \<le> 255" "(0::int) \<le> 10 \<and> (10::int) \<le> 255"
    "(0::int) \<le> 30 \<and> (30::int) \<le> 255"
    by simp_all
  note g = create_gradient_scanlines [OF this e refl]
  have "(3::nat) < 4 \<and> (4::nat) \<le> 2 ^ 53" by simp
  then have below: "fl (of_nat 3 / of_nat 4) < 1" using g by blast
  have c: "channels (10, 20, 30) ! 0 < channels (200, 10, 30) ! 0"
    "channels (200, 10, 30) ! 1 < channels (10, 20, 30) ! 1"
    "channels (10, 20, 30) ! 2 = channels (200, 10, 30) ! 2"
    "channels (10, 20, 30) ! 2 = 30"
    by (simp_all add: channels_def)
  have h0: "(0::nat) < 3 \<and> (1::nat) \<le> 3 \<and> (3::nat) < 4 \<and> (4::nat) \<le> 2 ^ 40" by simp
  have h1: "(1::nat) < 3 \<and> (1::nat) \<le> 3 \<and> (3::nat) < 4 \<and> (4::nat) \<le> 2 ^ 40" by simp
  have h2: "(2::nat) < 3 \<and> (1::nat) \<le> 3 \<and> (3::nat) < 4 \<and> (4::nat) \<le> 2 ^ 40" by simp
  have red: "channels (?fill ! 1) ! 0 \<le> channels (?fill ! 3) ! 0" using g h0 c(1) by blast
  have green: "channels (?fill ! 3) ! 1 \<le> channels (?fill ! 1) ! 1" using g h1 c(2) by blast
  have "channels (10, 20, 30) ! 2 - 1 \<le> channels (?fill ! 1) ! 2
      \<and> channels (?fill ! 1) ! 2 \<le> channels (10, 20, 30) ! 2"
    using g h2 c(3) by blast
  then have blue: "29 \<le> channels (?fill ! 1) ! 2 \<and> channels (?fill ! 1) ! 2 \<le> 30"
    unfolding c(4) by simp
  have "length ?fill = 4" "?fill ! 0 = (10, 20, 30)" using g by blast+
  then show ?thesis using below red green blue by simp
qed

lemma gradient_channel_zero: "gradient_channel 0 0 ratio = 0"
  by (simp add: gradient_channel_def py_trunc_def)

lemma example_channels:
  "gradient_channel 0 255 (fl (1 / 2)) = 127"
  "gradient_channel 29 29 (fl (3 / 7)) = 28"
  "gradient_channel 29 29 (fl (4 / 7)) = 29"
  by code_simp+

text \<open>
  Claim C5 as stated fails. On a fill of height 2 from black to red the last scanline is
  \<open>(127, 0, 0)\<close>: it is not the second colour, and at ratio \<open>1 / 2\<close> rounding gives 128
  where the code truncates to 127. On a fill of height 7 between two colours that differ
  in the blue channel only, the red channel, 29 in both colours, reads 29, 28 and 29 at
  the positions 0, 3 and 4: it is not monotonic.
\<close>

theorem gradient_far_end_counterexample:
  "create_gradient 1 2 (0, 0, 0) (255, 0, 0) ''vertical'' = [(0, 0, 0), (127, 0, 0)]
   \<and> last (create_gradient 1 2 (0, 0, 0) (255, 0, 0) ''vertical'') \<noteq> (255, 0, 0)
   \<and> round_half_even (0 * (1 - 1 / 2) + 255 * (1 / 2)) = 128
   \<and> fst (create_gradient 1 7 (29, 0, 0) (29, 0, 255) ''vertical'' ! 0) = 29
   \<and> fst (create_gradient 1 7 (29, 0, 0) (29, 0, 255) ''vertical'' ! 3) = 28
   \<and> fst (create_gradient 1 7 (29, 0, 0) (29, 0, 255) ''vertical'' ! 4) = 29"
proof -
  have two: "create_gradient 1 2 (0, 0, 0) (255, 0, 0) ''vertical'' = [(0, 0, 0), (127, 0, 0)]"
    by (simp add: create_gradient_def gradient_extent_def upt_rec gradient_color_def
        gradient_channel_zero gradient_channel_start example_channels)
  have r: "round_half_even (0 * (1 - 1 / 2) + 255 * (1 / 2)) = 128"
    by code_simp
  have seven: "fst (create_gradient 1 7 (29, 0, 0) (29, 0, 255) ''vertical'' ! 0) = 29"
    "fst (create_gradient 1 7 (29, 0, 0) (29, 0, 255) ''vertical'' ! 3) = 28"
    "fst (create_gradient 1 7 (29, 0, 0) (29, 0, 255) ''vertical'' ! 4) = 29"
    by (simp_all add: nth_create_gradient gradient_extent_def gradient_color_def Let_def
        gradient_channel_start example_channels)
  show ?thesis using two r seven by simp
qed

end
